theory Spec2Isabelle
  imports
    Main
    "HOL-Library.Char_ord"
    "HOL-Library.List_Lexorder"
    "HOL-Library.Option_ord"
    "HOL-Library.Sublist"
begin

section \<open>The catalog: schema, store and serialisation\<close>

text \<open>
  The library catalog of \<^verbatim>\<open>app.py\<close> keeps two tables. Python strings are modelled as
  \<^typ>\<open>string\<close>, a character being a code point below 256 (the ASCII range and the
  Latin-1 supplement of Unicode); Python integers as \<^typ>\<open>int\<close>; a nullable
  column as an \<^typ>\<open>'a option\<close> with \<^term>\<open>None\<close> for SQL NULL. A field whose name would
  clash between the two models (\<^verbatim>\<open>id\<close>, \<^verbatim>\<open>name\<close>, \<^verbatim>\<open>description\<close>) carries the prefix
  \<^verbatim>\<open>cat_\<close> on the category side; \<^verbatim>\<open>Book.id\<close> is \<^verbatim>\<open>book_id\<close>.
\<close>

record Category =
  cat_id :: int
  cat_name :: string
  cat_description :: "string option"
  image_path :: "string option"

record Book =
  book_id :: int
  title :: string
  author :: string
  description :: "string option"
  cover_image :: "string option"
  published_date :: "string option"
  isbn :: "string option"
  publisher :: "string option"
  pages :: "int option"
  available :: "bool option"
  category_id :: int
  created_at :: "int option"

text \<open>
  The store is the database behind \<^verbatim>\<open>db\<close>: each table is the list of its rows in the
  order an unordered \<^verbatim>\<open>SELECT\<close> returns them (the store's natural order).
\<close>

record store =
  category_table :: "Category list"
  book_table :: "Book list"

text \<open>
  Every exception of the source is a value. \<^verbatim>\<open>first_or_404\<close> aborts with HTTP 404;
  an attribute access on \<^verbatim>\<open>None\<close> raises \<^verbatim>\<open>AttributeError\<close>; \<^verbatim>\<open>int\<close> of a string that is
  no integer literal raises \<^verbatim>\<open>ValueError\<close>; the database driver raises \<^verbatim>\<open>OverflowError\<close>
  for a query parameter outside the 64-bit integers and \<^verbatim>\<open>OperationalError\<close> when the
  database refuses a LIKE pattern (all four end the request as a server error);
  inserting a second category of the same name violates the \<^verbatim>\<open>unique=True\<close> constraint.
\<close>

datatype error =
  NotFound | AttributeError | ValueError | OverflowError | OperationalError | IntegrityError

text \<open>
  An integer bound to a query parameter must fit the signed 64-bit integers of the
  database.
\<close>

definition max_int64 :: int where
  "max_int64 = 9223372036854775807"

definition bind_int :: "int \<Rightarrow> error + int" where
  "bind_int n = (if n < - max_int64 - 1 \<or> max_int64 < n then Inl OverflowError else Inr n)"

datatype jval = JNull | JInt int | JStr string | JBool bool

type_synonym dict = "(string \<times> jval) list"

definition opt_str :: "string option \<Rightarrow> jval" where
  "opt_str v = (case v of None \<Rightarrow> JNull | Some s \<Rightarrow> JStr s)"

definition opt_int :: "int option \<Rightarrow> jval" where
  "opt_int v = (case v of None \<Rightarrow> JNull | Some i \<Rightarrow> JInt i)"

definition opt_bool :: "bool option \<Rightarrow> jval" where
  "opt_bool v = (case v of None \<Rightarrow> JNull | Some b \<Rightarrow> JBool b)"

text \<open>
  \<^verbatim>\<open>Category.query.filter_by(name=...).first()\<close>: the first row of that name, if any.
\<close>

definition filter_by_name :: "store \<Rightarrow> string \<Rightarrow> Category option" where
  "filter_by_name st category_name =
     find (\<lambda>c. cat_name c = category_name) (category_table st)"

definition first_or_404 :: "'a option \<Rightarrow> error + 'a" where
  "first_or_404 row = (case row of None \<Rightarrow> Inl NotFound | Some r \<Rightarrow> Inr r)"

text \<open>
  The \<^verbatim>\<open>backref='category'\<close> relationship: \<^verbatim>\<open>book.category\<close> is the category whose
  primary key is the book's \<^verbatim>\<open>category_id\<close>, or \<^verbatim>\<open>None\<close> when no such row exists.
\<close>

definition book_category :: "store \<Rightarrow> Book \<Rightarrow> Category option" where
  "book_category st b = find (\<lambda>c. cat_id c = category_id b) (category_table st)"

text \<open>
  \<^verbatim>\<open>Book.to_dict\<close>. The last entry reads \<^verbatim>\<open>self.category.name\<close>, which raises when the
  relationship is \<^verbatim>\<open>None\<close>.
\<close>

definition to_dict :: "store \<Rightarrow> Book \<Rightarrow> error + dict" where
  "to_dict st b =
     (case book_category st b of
        None \<Rightarrow> Inl AttributeError
      | Some c \<Rightarrow> Inr
          [(''id'', JInt (book_id b)),
           (''title'', JStr (title b)),
           (''author'', JStr (author b)),
           (''description'', opt_str (description b)),
           (''cover_image'', opt_str (cover_image b)),
           (''published_date'', opt_str (published_date b)),
           (''isbn'', opt_str (isbn b)),
           (''publisher'', opt_str (publisher b)),
           (''pages'', opt_int (pages b)),
           (''available'', opt_bool (available b)),
           (''category'', JStr (cat_name c))])"

text \<open>
  A list comprehension \<^verbatim>\<open>[book.to_dict() for book in books]\<close>: the first exception
  ends it.
\<close>

fun to_dicts :: "store \<Rightarrow> Book list \<Rightarrow> error + dict list" where
  "to_dicts st [] = Inr []"
| "to_dicts st (b # bs) =
     (case to_dict st b of
        Inl e \<Rightarrow> Inl e
      | Inr d \<Rightarrow> (case to_dicts st bs of Inl e \<Rightarrow> Inl e | Inr ds \<Rightarrow> Inr (d # ds)))"

section \<open>Free-text search\<close>

text \<open>
  \<^verbatim>\<open>column.ilike(pattern)\<close> is SQL \<^verbatim>\<open>lower(column) LIKE lower(pattern)\<close>. In a LIKE
  pattern \<^verbatim>\<open>%\<close> stands for any run of characters (also the empty one) and \<^verbatim>\<open>_\<close> for
  exactly one character; every other character stands for itself. The lower-casing of
  the database folds the ASCII letters only.
\<close>

definition lower_char :: "char \<Rightarrow> char" where
  "lower_char c =
     (if CHR ''A'' \<le> c \<and> c \<le> CHR ''Z'' then char_of (of_char c + (32::nat)) else c)"

definition lower :: "string \<Rightarrow> string" where
  "lower s = map lower_char s"

fun like :: "string \<Rightarrow> string \<Rightarrow> bool" where
  "like [] s = (s = [])"
| "like (p # ps) [] = (p = CHR ''%'' \<and> like ps [])"
| "like (p # ps) (c # s) =
     (if p = CHR ''%'' then like ps (c # s) \<or> like (p # ps) s
      else (p = CHR ''_'' \<or> p = c) \<and> like ps s)"

text \<open>
  The database reads both operands of LIKE as C strings, which end at the first
  character U+0000, and refuses a pattern of more than 50000 bytes; a character below
  code point 128 takes one byte of UTF-8 and the others here take two.
\<close>

definition cstr :: "string \<Rightarrow> string" where
  "cstr s = takeWhile (\<lambda>c. c \<noteq> CHR 0x00) s"

definition utf8_length :: "string \<Rightarrow> int" where
  "utf8_length s = sum_list (map (\<lambda>c. if of_char c < (128::nat) then 1 else 2) s)"

text \<open>
  The length of the pattern is checked first, for a NULL column too. A NULL column
  makes the comparison NULL, and a row whose filter is not true is not selected.
\<close>

definition ilike :: "string option \<Rightarrow> string \<Rightarrow> error + bool" where
  "ilike column pattern =
     (if 50000 < utf8_length (lower pattern) then Inl OperationalError
      else Inr (case column of
                  None \<Rightarrow> False
                | Some s \<Rightarrow> like (cstr (lower pattern)) (cstr (lower s))))"

text \<open>SQL \<^verbatim>\<open>OR\<close>, evaluated from the left; an error ends the evaluation.\<close>

definition sql_or :: "error + bool \<Rightarrow> error + bool \<Rightarrow> error + bool" where
  "sql_or a b = (case a of Inl e \<Rightarrow> Inl e | Inr t \<Rightarrow> if t then Inr True else b)"

text \<open>
  The rows of a table that a \<^verbatim>\<open>WHERE\<close> condition selects, in the order of the table;
  the first row on which the condition raises ends the query.
\<close>

fun where_rows :: "('a \<Rightarrow> error + bool) \<Rightarrow> 'a list \<Rightarrow> error + 'a list" where
  "where_rows cond [] = Inr []"
| "where_rows cond (r # rs) =
     (case cond r of
        Inl e \<Rightarrow> Inl e
      | Inr t \<Rightarrow>
          (case where_rows cond rs of
             Inl e \<Rightarrow> Inl e
           | Inr sel \<Rightarrow> Inr (if t then r # sel else sel)))"

text \<open>
  \<^verbatim>\<open>str.isdigit\<close> holds of a non-empty string whose characters are all digits. Below
  code point 256 the digits of Python are the decimal digits 0 to 9 and the three
  superscript digits U+00B2, U+00B3 and U+00B9.
\<close>

definition is_decimal_char :: "char \<Rightarrow> bool" where
  "is_decimal_char c = (CHR ''0'' \<le> c \<and> c \<le> CHR ''9'')"

definition is_digit_char :: "char \<Rightarrow> bool" where
  "is_digit_char c = (is_decimal_char c \<or> c = CHR 0xB2 \<or> c = CHR 0xB3 \<or> c = CHR 0xB9)"

definition isdigit :: "string \<Rightarrow> bool" where
  "isdigit s = (s \<noteq> [] \<and> list_all is_digit_char s)"

text \<open>
  \<^verbatim>\<open>int(s)\<close> for a string of digits, the only strings \<^verbatim>\<open>search\<close> passes to it: the
  number written when every character is a decimal digit, \<^verbatim>\<open>ValueError\<close> otherwise (a
  superscript digit is no part of an integer literal). The interpreter also refuses,
  with \<^verbatim>\<open>ValueError\<close>, a literal of more than 4300 digits.
\<close>

definition py_int :: "string \<Rightarrow> error + int" where
  "py_int s =
     (if s \<noteq> [] \<and> list_all is_decimal_char s \<and> int (length s) \<le> 4300
      then Inr (foldl (\<lambda>n c. 10 * n + (int (of_char c) - 48)) 0 s)
      else Inl ValueError)"

text \<open>
  The query that \<^verbatim>\<open>search\<close> builds for a non-empty \<^verbatim>\<open>query\<close>: the three-way OR over
  the pattern \<^verbatim>\<open>f'%{query}%'\<close>, and the category filter when \<^verbatim>\<open>category_id\<close> is
  present, non-empty and all digits. \<^verbatim>\<open>int(category_id)\<close> is evaluated when the filter
  is added and bound when the query is run; the database then tests the rows, the text
  condition before the category; \<^verbatim>\<open>.all()\<close> returns the rows in natural order.
\<close>

definition text_match :: "string \<Rightarrow> Book \<Rightarrow> error + bool" where
  "text_match query b =
     (let pattern = ''%'' @ query @ ''%''
      in sql_or (ilike (Some (title b)) pattern)
           (sql_or (ilike (Some (author b)) pattern) (ilike (description b) pattern)))"

definition category_param :: "string \<Rightarrow> error + int" where
  "category_param cid = (case py_int cid of Inl e \<Rightarrow> Inl e | Inr n \<Rightarrow> bind_int n)"

definition book_query :: "store \<Rightarrow> string \<Rightarrow> string option \<Rightarrow> error + Book list" where
  "book_query st query category_id' =
     (case category_id' of
        None \<Rightarrow> where_rows (text_match query) (book_table st)
      | Some cid \<Rightarrow>
          if cid \<noteq> [] \<and> isdigit cid
          then (case category_param cid of
                  Inl e \<Rightarrow> Inl e
                | Inr n \<Rightarrow>
                    where_rows
                      (\<lambda>b. case text_match query b of
                             Inl e \<Rightarrow> Inl e
                           | Inr t \<Rightarrow> Inr (t \<and> category_id b = n))
                      (book_table st))
          else where_rows (text_match query) (book_table st))"

record search_response =
  results :: "dict list"
  count :: nat

text \<open>
  The handler of \<^verbatim>\<open>/search\<close>. Its two arguments are the request parameters \<^verbatim>\<open>q\<close> and
  \<^verbatim>\<open>category\<close>, \<^term>\<open>None\<close> when the parameter is absent.
\<close>

definition search :: "store \<Rightarrow> string option \<Rightarrow> string option \<Rightarrow> error + search_response" where
  "search st q category_id' =
     (let query = (case q of None \<Rightarrow> [] | Some s \<Rightarrow> s)
      in if query \<noteq> [] then
           (case book_query st query category_id' of
              Inl e \<Rightarrow> Inl e
            | Inr books \<Rightarrow>
                (case to_dicts st books of
                   Inl e \<Rightarrow> Inl e
                 | Inr ds \<Rightarrow> Inr \<lparr>results = ds, count = length books\<rparr>))
         else Inr \<lparr>results = [], count = 0\<rparr>)"

section \<open>Category listings\<close>

text \<open>
  \<^verbatim>\<open>query.paginate(page=..., per_page=..., error_out=False)\<close> of Flask-SQLAlchemy.
  Without \<^verbatim>\<open>error_out\<close> a page below 1 becomes page 1 and a page size below 1 becomes
  20; the items are the rows after \<^verbatim>\<open>OFFSET (page - 1) * per_page\<close>, at most
  \<^verbatim>\<open>LIMIT per_page\<close> of them; \<^verbatim>\<open>total\<close> counts the rows of the query. Limit and
  offset are bound as query parameters, so the query raises when one of them does not
  fit 64 bits.
\<close>

definition prepare_page_args :: "int \<Rightarrow> int \<Rightarrow> int \<times> int" where
  "prepare_page_args page per_page =
     (if page < 1 then 1 else page, if per_page < 1 then 20 else per_page)"

record Pagination =
  pg_page :: int
  pg_per_page :: int
  pg_total :: nat
  pg_items :: "Book list"

definition paginate :: "Book list \<Rightarrow> int \<Rightarrow> int \<Rightarrow> error + Pagination" where
  "paginate query page per_page =
     (case prepare_page_args page per_page of
        (page', per_page') \<Rightarrow>
          (case bind_int per_page' of
             Inl e \<Rightarrow> Inl e
           | Inr limit \<Rightarrow>
               (case bind_int ((page' - 1) * per_page') of
                  Inl e \<Rightarrow> Inl e
                | Inr offset \<Rightarrow>
                    Inr \<lparr>pg_page = page', pg_per_page = per_page', pg_total = length query,
                         pg_items = take (nat limit) (drop (nat offset) query)\<rparr>)))"

text \<open>
  The property \<^verbatim>\<open>Pagination.pages\<close>: 0 for an empty query, else
  \<^verbatim>\<open>ceil(total / per_page)\<close>, written here with integer division.
\<close>

definition pg_pages :: "Pagination \<Rightarrow> int" where
  "pg_pages p =
     (if pg_total p = 0 then 0
      else (int (pg_total p) + pg_per_page p - 1) div pg_per_page p)"

text \<open>
  \<^verbatim>\<open>request.args.get(key, default, type=int)\<close>: the default when the parameter is absent
  or is not an integer. A request parameter is \<^term>\<open>None\<close> in both cases.
\<close>

definition args_get :: "'a option \<Rightarrow> 'a \<Rightarrow> 'a" where
  "args_get arg dflt = (case arg of None \<Rightarrow> dflt | Some v \<Rightarrow> v)"

definition filter_by_category_id :: "store \<Rightarrow> int \<Rightarrow> Book list" where
  "filter_by_category_id st cid = filter (\<lambda>b. category_id b = cid) (book_table st)"

record category_page =
  cp_category :: Category
  cp_books :: "Book list"
  cp_pagination :: Pagination
  cp_total_books :: nat

text \<open>
  The handler of \<^verbatim>\<open>/category/<name>\<close>; its result is the context handed to the
  template.
\<close>

definition category :: "store \<Rightarrow> string \<Rightarrow> int option \<Rightarrow> int option \<Rightarrow> error + category_page" where
  "category st category_name page_arg per_page_arg =
     (case first_or_404 (filter_by_name st category_name) of
        Inl e \<Rightarrow> Inl e
      | Inr c \<Rightarrow>
          (let page = args_get page_arg 1;
               per_page = args_get per_page_arg 10
           in case paginate (filter_by_category_id st (cat_id c)) page per_page of
                Inl e \<Rightarrow> Inl e
              | Inr books_pagination \<Rightarrow>
                  (let total_books = length (filter_by_category_id st (cat_id c))
                   in Inr \<lparr>cp_category = c, cp_books = pg_items books_pagination,
                           cp_pagination = books_pagination,
                           cp_total_books = total_books\<rparr>)))"

text \<open>
  \<^verbatim>\<open>order_by(Book.title)\<close> sorts ascending and \<^verbatim>\<open>order_by(Book.published_date.desc())\<close>
  descending; strings compare byte by byte and NULL is below every string. In both
  directions the database returns rows with equal keys in the order of the table.
\<close>

definition order_by :: "string \<Rightarrow> Book list \<Rightarrow> Book list" where
  "order_by sort_by query =
     (if sort_by = ''title'' then sort_key title query
      else if sort_by = ''date'' then rev (sort_key published_date (rev query))
      else query)"

record api_response =
  api_books :: "dict list"
  api_total :: nat
  api_pages :: int
  api_current_page :: int

text \<open>The handler of \<^verbatim>\<open>/api/books/<name>\<close>.\<close>

definition api_category_books ::
  "store \<Rightarrow> string \<Rightarrow> int option \<Rightarrow> int option \<Rightarrow> string option \<Rightarrow> error + api_response" where
  "api_category_books st category_name page_arg per_page_arg sort_by_arg =
     (case first_or_404 (filter_by_name st category_name) of
        Inl e \<Rightarrow> Inl e
      | Inr c \<Rightarrow>
          (let page = args_get page_arg 1;
               per_page = args_get per_page_arg 10;
               sort_by = args_get sort_by_arg ''relevance'';
               query = order_by sort_by (filter_by_category_id st (cat_id c))
           in case paginate query page per_page of
                Inl e \<Rightarrow> Inl e
              | Inr books_pagination \<Rightarrow>
                  (let total_books = length query
                   in case to_dicts st (pg_items books_pagination) of
                        Inl e \<Rightarrow> Inl e
                      | Inr books_data \<Rightarrow>
                          Inr \<lparr>api_books = books_data, api_total = total_books,
                               api_pages = pg_pages books_pagination,
                               api_current_page = page\<rparr>)))"

section \<open>The bootstrap seeder\<close>

definition categories :: "string list" where
  "categories =
     [''Academic'', ''Criminology'', ''Fiction'', ''Thesis'',
      ''Financial'', ''Religion'', ''Self-Growth'', ''Technology'']"

text \<open>
  A new row gets the integer primary key the database assigns: 1 in an empty table,
  else one more than the largest key. (Only when the largest key is the last 64-bit
  integer does the database pick an unused key at random; the model has no such table.)
\<close>

definition new_id :: "store \<Rightarrow> int" where
  "new_id st =
     (case map cat_id (category_table st) of
        [] \<Rightarrow> 1
      | i # ids \<Rightarrow> foldl max i ids + 1)"

text \<open>
  \<^verbatim>\<open>db.session.add(Category(name=...))\<close>, as the database sees it once flushed: the
  \<^verbatim>\<open>unique=True\<close> constraint on the name rejects a second row of the same name.
\<close>

definition session_add :: "store \<Rightarrow> string \<Rightarrow> error + store" where
  "session_add st category_name =
     (if list_ex (\<lambda>c. cat_name c = category_name) (category_table st)
      then Inl IntegrityError
      else Inr (st\<lparr>category_table := category_table st @
                  [\<lparr>cat_id = new_id st, cat_name = category_name,
                    cat_description = None, image_path = None\<rparr>]\<rparr>))"

text \<open>The loop \<^verbatim>\<open>for category_name in categories\<close> of \<^verbatim>\<open>db_init\<close>.\<close>

fun seed :: "store \<Rightarrow> string list \<Rightarrow> error + store" where
  "seed st [] = Inr st"
| "seed st (category_name # names) =
     (if filter_by_name st category_name = None
      then (case session_add st category_name of
              Inl e \<Rightarrow> Inl e
            | Inr st' \<Rightarrow> seed st' names)
      else seed st names)"

definition db_init :: "store \<Rightarrow> error + store" where
  "db_init st = seed st categories"

section \<open>What the specification says, in its own words\<close>

text \<open>
  A column contains the query as a case-insensitive substring. An absent (NULL) column
  contains nothing.
\<close>

definition spec_contains :: "string \<Rightarrow> string option \<Rightarrow> bool" where
  "spec_contains query column =
     (case column of None \<Rightarrow> False | Some s \<Rightarrow> sublist (lower query) (lower s))"

definition spec_match :: "string \<Rightarrow> Book \<Rightarrow> bool" where
  "spec_match query b =
     (spec_contains query (Some (title b)) \<or> spec_contains query (Some (author b))
      \<or> spec_contains query (description b))"

text \<open>The categories of the store that carry a seeded name.\<close>

definition seeded_categories :: "store \<Rightarrow> Category list" where
  "seeded_categories st = filter (\<lambda>c. cat_name c \<in> set categories) (category_table st)"

text \<open>
  No text column of a book holds the character U+0000, at which the database would
  stop reading it.
\<close>

definition nul_free :: "store \<Rightarrow> bool" where
  "nul_free st =
     list_all
       (\<lambda>b. CHR 0x00 \<notin> set (title b) \<and> CHR 0x00 \<notin> set (author b)
            \<and> (case description b of None \<Rightarrow> True | Some d \<Rightarrow> CHR 0x00 \<notin> set d))
       (book_table st)"

text \<open>Referential integrity: the category reference of every book resolves.\<close>

definition ref_integrity :: "store \<Rightarrow> bool" where
  "ref_integrity st = list_all (\<lambda>b. book_category st b \<noteq> None) (book_table st)"

text \<open>A string field of a serialised book; \<^term>\<open>None\<close> when it is null.\<close>

definition dict_str :: "dict \<Rightarrow> string \<Rightarrow> string option" where
  "dict_str d k = (case map_of d k of Some (JStr s) \<Rightarrow> Some s | _ \<Rightarrow> None)"

section \<open>Example stores\<close>

definition mk_category :: "int \<Rightarrow> string \<Rightarrow> Category" where
  "mk_category i n = \<lparr>cat_id = i, cat_name = n, cat_description = None, image_path = None\<rparr>"

definition mk_book :: "int \<Rightarrow> string \<Rightarrow> string \<Rightarrow> int \<Rightarrow> Book" where
  "mk_book i t a cid =
     \<lparr>book_id = i, title = t, author = a, description = None, cover_image = None,
      published_date = None, isbn = None, publisher = None, pages = None,
      available = Some True, category_id = cid, created_at = None\<rparr>"

definition empty_store :: store where
  "empty_store = \<lparr>category_table = [], book_table = []\<rparr>"

text \<open>Two categories and two books, one by Tolkien and one by King.\<close>

definition tolkien_store :: store where
  "tolkien_store =
     \<lparr>category_table = [mk_category 1 ''Fiction'', mk_category 2 ''Thesis''],
      book_table = [mk_book 1 ''The Hobbit'' ''J.R.R. Tolkien'' 1,
                    mk_book 2 ''It'' ''King'' 2]\<rparr>"

text \<open>The serialised forms of the two books.\<close>

definition hobbit_dict :: dict where
  "hobbit_dict =
     [(''id'', JInt 1), (''title'', JStr ''The Hobbit''),
      (''author'', JStr ''J.R.R. Tolkien''), (''description'', JNull),
      (''cover_image'', JNull), (''published_date'', JNull),
      (''isbn'', JNull), (''publisher'', JNull), (''pages'', JNull),
      (''available'', JBool True), (''category'', JStr ''Fiction'')]"

definition it_dict :: dict where
  "it_dict =
     [(''id'', JInt 2), (''title'', JStr ''It''),
      (''author'', JStr ''King''), (''description'', JNull),
      (''cover_image'', JNull), (''published_date'', JNull),
      (''isbn'', JNull), (''publisher'', JNull), (''pages'', JNull),
      (''available'', JBool True), (''category'', JStr ''Thesis'')]"

text \<open>The same store after the seeder has run on it.\<close>

definition seeded_store :: store where
  "seeded_store =
     \<lparr>category_table =
        [mk_category 1 ''Fiction'', mk_category 2 ''Thesis'', mk_category 3 ''Academic'',
         mk_category 4 ''Criminology'', mk_category 5 ''Financial'', mk_category 6 ''Religion'',
         mk_category 7 ''Self-Growth'', mk_category 8 ''Technology''],
      book_table = [mk_book 1 ''The Hobbit'' ''J.R.R. Tolkien'' 1,
                    mk_book 2 ''It'' ''King'' 2]\<rparr>"

text \<open>One category with 25 books.\<close>

definition fiction_store :: store where
  "fiction_store =
     \<lparr>category_table = [mk_category 1 ''Fiction''],
      book_table = map (\<lambda>i. mk_book (int i) ''Book'' ''Author'' 1) [1..<26]\<rparr>"

text \<open>
  One category with three books in the store order Gamma, Alpha, Beta; Alpha is not
  available, Beta has no publication date.
\<close>

definition alpha_book :: Book where
  "alpha_book = (mk_book 2 ''Alpha'' ''Bob'' 1)\<lparr>published_date := Some ''2020'', available := Some False\<rparr>"

definition shelf_store :: store where
  "shelf_store =
     \<lparr>category_table = [mk_category 1 ''Fiction''],
      book_table =
        [(mk_book 1 ''Gamma'' ''Ann'' 1)\<lparr>published_date := Some ''2001''\<rparr>,
         alpha_book,
         mk_book 3 ''Beta'' ''Cy'' 1]\<rparr>"

section \<open>Serialisation\<close>

lemma find_distinct_key:
  "distinct (map f xs) \<Longrightarrow> x \<in> set xs \<Longrightarrow> find (\<lambda>y. f y = f x) xs = Some x"
  by (induction xs) (auto simp: image_iff)

lemma book_category_owner:
  assumes "c \<in> set (category_table st)" and "cat_id c = category_id b"
    and "distinct (map cat_id (category_table st))"
  shows "book_category st b = Some c"
  using find_distinct_key[OF assms(3) assms(1)] assms(2) by (simp add: book_category_def)

text \<open>
  C8. Let the owning category of a book be the category of the store whose key is the
  book's \<^verbatim>\<open>category_id\<close>, keys being unique. The serialised form of the book carries,
  under the key \<^verbatim>\<open>category\<close>, the name of that category as a string, and no integer:
  never the category's numeric id.
\<close>

theorem to_dict_category_name:
  assumes "c \<in> set (category_table st)" and "cat_id c = category_id b"
    and "distinct (map cat_id (category_table st))"
  shows "\<exists>d. to_dict st b = Inr d \<and> map_of d ''category'' = Some (JStr (cat_name c))
             \<and> (\<forall>i. map_of d ''category'' \<noteq> Some (JInt i))"
  using book_category_owner[OF assms] by (simp add: to_dict_def)

theorem to_dict_category_name_witness:
  "mk_category 1 ''Fiction'' \<in> set (category_table tolkien_store)
   \<and> cat_id (mk_category 1 ''Fiction'') = category_id (mk_book 1 ''The Hobbit'' ''J.R.R. Tolkien'' 1)
   \<and> mk_category 2 ''Thesis'' \<in> set (category_table tolkien_store)
   \<and> cat_id (mk_category 2 ''Thesis'') = category_id (mk_book 2 ''It'' ''King'' 2)
   \<and> distinct (map cat_id (category_table tolkien_store))
   \<and> to_dict tolkien_store (mk_book 1 ''The Hobbit'' ''J.R.R. Tolkien'' 1) = Inr hobbit_dict
   \<and> map_of hobbit_dict ''category'' = Some (JStr ''Fiction'')
   \<and> to_dict tolkien_store (mk_book 2 ''It'' ''King'' 2) = Inr it_dict
   \<and> map_of it_dict ''category'' = Some (JStr ''Thesis'')"
proof -
  have m1: "mk_category 1 ''Fiction'' \<in> set (category_table tolkien_store)"
    and m2: "mk_category 2 ''Thesis'' \<in> set (category_table tolkien_store)"
    by (simp_all add: tolkien_store_def)
  have k1: "cat_id (mk_category 1 ''Fiction'')
              = category_id (mk_book 1 ''The Hobbit'' ''J.R.R. Tolkien'' 1)"
    and k2: "cat_id (mk_category 2 ''Thesis'') = category_id (mk_book 2 ''It'' ''King'' 2)"
    by (simp_all add: mk_category_def mk_book_def)
  have u: "distinct (map cat_id (category_table tolkien_store))"
    by (simp add: tolkien_store_def mk_category_def)
  have d1: "to_dict tolkien_store (mk_book 1 ''The Hobbit'' ''J.R.R. Tolkien'' 1) = Inr hobbit_dict"
    and d2: "to_dict tolkien_store (mk_book 2 ''It'' ''King'' 2) = Inr it_dict"
    by code_simp+
  from to_dict_category_name[OF m1 k1 u] to_dict_category_name[OF m2 k2 u] m1 m2 k1 k2 u d1 d2
  show ?thesis by (simp add: mk_category_def)
qed

lemma to_dicts_total:
  "list_all (\<lambda>b. book_category st b \<noteq> None) bs \<Longrightarrow>
   \<exists>ds. to_dicts st bs = Inr ds \<and> length ds = length bs"
  by (induction bs) (auto simp: to_dict_def split: option.splits)

lemma list_all_filter: "list_all P xs \<Longrightarrow> list_all P (filter Q xs)"
  by (induction xs) auto

section \<open>Search: the empty query\<close>

text \<open>
  C6. With the parameter \<^verbatim>\<open>q\<close> absent or empty, \<^verbatim>\<open>search\<close> answers with the successful
  result of no books and count 0, whatever the store holds and whatever category filter
  comes with the request.
\<close>

theorem search_empty_query:
  "search st None category_id' = Inr \<lparr>results = [], count = 0\<rparr>
   \<and> search st (Some []) category_id' = Inr \<lparr>results = [], count = 0\<rparr>"
  by (simp add: search_def)

section \<open>Search: LIKE patterns and substrings\<close>

text \<open>
  Lower-casing moves the letters A to Z by 32: it never creates a wildcard or the
  character U+0000, and it keeps the length in bytes.
\<close>

lemma lower_char_range:
  assumes "CHR ''A'' \<le> c" "c \<le> CHR ''Z''"
  shows "of_char (lower_char c) = (of_char c + 32 :: nat)" "(65::nat) \<le> of_char c" "of_char c \<le> (90::nat)"
proof -
  from assms show lo: "(65::nat) \<le> of_char c" and hi: "of_char c \<le> (90::nat)"
    by (simp_all add: less_eq_char_def)
  have "of_char (lower_char c) = ((of_char c + 32) mod 256 :: nat)"
    using assms by (simp add: lower_char_def)
  with hi show "of_char (lower_char c) = (of_char c + 32 :: nat)" by simp
qed

lemma lower_char_not_wild:
  assumes "c \<noteq> CHR ''%''" "c \<noteq> CHR ''_''"
  shows "lower_char c \<noteq> CHR ''%'' \<and> lower_char c \<noteq> CHR ''_''"
proof (cases "CHR ''A'' \<le> c \<and> c \<le> CHR ''Z''")
  case True
  then have n: "of_char (lower_char c) = (of_char c + 32 :: nat)" "(65::nat) \<le> of_char c"
    using lower_char_range by auto
  have "of_char (lower_char c) \<noteq> (of_char CHR ''%'' :: nat)"
    using n by simp
  moreover have "of_char (lower_char c) \<noteq> (of_char CHR ''_'' :: nat)"
    using n by simp
  ultimately show ?thesis by auto
next
  case False
  with assms show ?thesis by (auto simp: lower_char_def)
qed

lemma lower_no_wild:
  "\<forall>c\<in>set q. c \<noteq> CHR ''%'' \<and> c \<noteq> CHR ''_'' \<Longrightarrow>
   \<forall>c\<in>set (lower q). c \<noteq> CHR ''%'' \<and> c \<noteq> CHR ''_''"
  by (auto simp: lower_def dest: lower_char_not_wild)

lemma lower_pattern: "lower (CHR ''%'' # q @ ''%'') = CHR ''%'' # lower q @ ''%''"
  by (simp add: lower_def lower_char_def)

lemma like_any: "like ''%'' s"
  by (induction s) auto

lemma like_prefix:
  "\<forall>c\<in>set p. c \<noteq> CHR ''%'' \<and> c \<noteq> CHR ''_'' \<Longrightarrow> like (p @ ''%'') s \<longleftrightarrow> prefix p s"
proof (induction p arbitrary: s)
  case Nil
  then show ?case by (simp add: like_any)
next
  case (Cons a p)
  then show ?case by (cases s) auto
qed

lemma like_percent:
  "like (CHR ''%'' # pat) s \<longleftrightarrow> (\<exists>ps t. s = ps @ t \<and> like pat t)"
proof (induction s)
  case Nil
  then show ?case by simp
next
  case (Cons c s)
  show ?case
  proof
    assume "like (CHR ''%'' # pat) (c # s)"
    then consider "like pat (c # s)" | "like (CHR ''%'' # pat) s" by auto
    then show "\<exists>ps t. c # s = ps @ t \<and> like pat t"
    proof cases
      case 1
      then have "c # s = [] @ (c # s) \<and> like pat (c # s)" by simp
      then show ?thesis by blast
    next
      case 2
      with Cons obtain ps t where "s = ps @ t" "like pat t" by auto
      then have "c # s = (c # ps) @ t \<and> like pat t" by simp
      then show ?thesis by blast
    qed
  next
    assume "\<exists>ps t. c # s = ps @ t \<and> like pat t"
    then obtain ps t where pt: "c # s = ps @ t" "like pat t" by auto
    show "like (CHR ''%'' # pat) (c # s)"
    proof (cases ps)
      case Nil
      with pt show ?thesis by auto
    next
      case (Cons a ps')
      with pt have "s = ps' @ t" by auto
      with pt Cons.IH have "like (CHR ''%'' # pat) s" by auto
      then show ?thesis by auto
    qed
  qed
qed

lemma like_substring:
  assumes "\<forall>c\<in>set p. c \<noteq> CHR ''%'' \<and> c \<noteq> CHR ''_''"
  shows "like (CHR ''%'' # p @ ''%'') s \<longleftrightarrow> sublist p s"
proof -
  have "like (CHR ''%'' # p @ ''%'') s \<longleftrightarrow> (\<exists>ps t. s = ps @ t \<and> prefix p t)"
    using like_percent[of "p @ ''%''" s] like_prefix[OF assms] by simp
  also have "\<dots> \<longleftrightarrow> sublist p s"
    by (auto simp: sublist_def prefix_def)
  finally show ?thesis .
qed

lemma lower_char_nul: "lower_char c = CHR 0x00 \<longleftrightarrow> c = CHR 0x00"
proof (cases "CHR ''A'' \<le> c \<and> c \<le> CHR ''Z''")
  case True
  then have n: "of_char (lower_char c) = (of_char c + 32 :: nat)" "(65::nat) \<le> of_char c"
    using lower_char_range by auto
  then have "of_char (lower_char c) \<noteq> (of_char (CHR 0x00) :: nat)" by simp
  moreover from n(2) have "of_char c \<noteq> (of_char (CHR 0x00) :: nat)" by simp
  ultimately show ?thesis by auto
next
  case False
  then show ?thesis by (auto simp: lower_char_def)
qed

lemma lower_nul_free:
  assumes "CHR 0x00 \<notin> set s"
  shows "CHR 0x00 \<notin> set (lower s)"
proof
  assume "CHR 0x00 \<in> set (lower s)"
  then obtain x where "x \<in> set s" and "lower_char x = CHR 0x00"
    by (auto simp: lower_def image_iff)
  with assms show False by (simp add: lower_char_nul)
qed

lemma cstr_nul_free: "CHR 0x00 \<notin> set s \<Longrightarrow> cstr s = s"
  unfolding cstr_def by (induction s) auto

lemma lower_char_ascii:
  "(of_char (lower_char c) < (128::nat)) \<longleftrightarrow> (of_char c < (128::nat))"
proof (cases "CHR ''A'' \<le> c \<and> c \<le> CHR ''Z''")
  case True
  then have "of_char (lower_char c) = (of_char c + 32 :: nat)" "of_char c \<le> (90::nat)"
    using lower_char_range by auto
  then show ?thesis by simp
next
  case False
  then show ?thesis by (auto simp: lower_char_def)
qed

lemma utf8_length_lower: "utf8_length (lower s) = utf8_length s"
  by (induction s) (simp_all add: utf8_length_def lower_def lower_char_ascii)

lemma utf8_length_pattern: "utf8_length (CHR ''%'' # q @ ''%'') = utf8_length q + 2"
  by (simp add: utf8_length_def)

lemma ilike_contains:
  assumes "\<forall>c\<in>set q. c \<noteq> CHR ''%'' \<and> c \<noteq> CHR ''_''" and "CHR 0x00 \<notin> set q"
    and "utf8_length q + 2 \<le> 50000"
    and "case column of None \<Rightarrow> True | Some s \<Rightarrow> CHR 0x00 \<notin> set s"
  shows "ilike column (CHR ''%'' # q @ ''%'') = Inr (spec_contains q column)"
proof -
  have len: "\<not> 50000 < utf8_length (lower (CHR ''%'' # q @ ''%''))"
    using assms(3) by (simp add: utf8_length_lower utf8_length_pattern)
  have pat: "cstr (lower (CHR ''%'' # q @ ''%'')) = CHR ''%'' # lower q @ ''%''"
    using lower_nul_free[OF assms(2)] by (simp add: lower_pattern cstr_nul_free)
  show ?thesis
  proof (cases column)
    case None
    with len show ?thesis by (simp add: ilike_def spec_contains_def)
  next
    case (Some s)
    with assms(4) have "cstr (lower s) = lower s"
      by (simp add: cstr_nul_free lower_nul_free)
    with Some len pat like_substring[OF lower_no_wild[OF assms(1)]] show ?thesis
      by (simp add: ilike_def spec_contains_def)
  qed
qed

lemma text_match_spec:
  assumes "\<forall>c\<in>set q. c \<noteq> CHR ''%'' \<and> c \<noteq> CHR ''_''" and "CHR 0x00 \<notin> set q"
    and "utf8_length q + 2 \<le> 50000"
    and "CHR 0x00 \<notin> set (title b)" and "CHR 0x00 \<notin> set (author b)"
    and "case description b of None \<Rightarrow> True | Some d \<Rightarrow> CHR 0x00 \<notin> set d"
  shows "text_match q b = Inr (spec_match q b)"
proof -
  have t: "ilike (Some (title b)) (CHR ''%'' # q @ ''%'') = Inr (spec_contains q (Some (title b)))"
    using assms(4) by (intro ilike_contains[OF assms(1-3)]) simp
  have a: "ilike (Some (author b)) (CHR ''%'' # q @ ''%'') = Inr (spec_contains q (Some (author b)))"
    using assms(5) by (intro ilike_contains[OF assms(1-3)]) simp
  have d: "ilike (description b) (CHR ''%'' # q @ ''%'') = Inr (spec_contains q (description b))"
    by (rule ilike_contains[OF assms(1-3) assms(6)])
  show ?thesis
    by (simp add: text_match_def spec_match_def Let_def sql_or_def t a d)
qed

lemma where_rows_total:
  "\<forall>r\<in>set rs. cond r = Inr (P r) \<Longrightarrow> where_rows cond rs = Inr (filter P rs)"
  by (induction rs) auto

text \<open>
  C1, as the code has it. The query goes into the LIKE pattern unescaped, so the claim
  is proved for the queries that the database reads as plain text: those that contain
  none of \<^verbatim>\<open>%\<close>, \<^verbatim>\<open>_\<close> and U+0000 and give a pattern of at most 50000 bytes. On a
  store whose text columns hold no U+0000 and whose category references resolve,
  \<^verbatim>\<open>search\<close> of such a non-empty query returns the serialised forms of exactly the books
  whose title, author or description contains the query as a case-insensitive
  substring, in store order, and the number of those books.
\<close>

theorem search_substring:
  assumes "q \<noteq> []" and "CHR ''%'' \<notin> set q" and "CHR ''_'' \<notin> set q"
    and "CHR 0x00 \<notin> set q" and "utf8_length q + 2 \<le> 50000"
    and "nul_free st" and "ref_integrity st"
  shows "\<exists>ds. search st (Some q) None =
            Inr \<lparr>results = ds, count = length (filter (spec_match q) (book_table st))\<rparr>
          \<and> to_dicts st (filter (spec_match q) (book_table st)) = Inr ds"
proof -
  from assms(2,3) have w: "\<forall>c\<in>set q. c \<noteq> CHR ''%'' \<and> c \<noteq> CHR ''_''" by auto
  have "\<forall>b\<in>set (book_table st). text_match q b = Inr (spec_match q b)"
    using assms(6) text_match_spec[OF w assms(4,5)]
    by (simp add: nul_free_def list_all_iff)
  then have q: "book_query st q None = Inr (filter (spec_match q) (book_table st))"
    by (simp add: book_query_def where_rows_total)
  have "list_all (\<lambda>b. book_category st b \<noteq> None) (filter (spec_match q) (book_table st))"
    using assms(7) by (simp add: ref_integrity_def list_all_filter)
  then obtain ds where "to_dicts st (filter (spec_match q) (book_table st)) = Inr ds"
    using to_dicts_total by blast
  with q assms(1) show ?thesis by (simp add: search_def)
qed

theorem search_substring_witness:
  "''tolkien'' \<noteq> [] \<and> CHR ''%'' \<notin> set ''tolkien'' \<and> CHR ''_'' \<notin> set ''tolkien''
   \<and> CHR 0x00 \<notin> set ''tolkien'' \<and> utf8_length ''tolkien'' + 2 \<le> 50000
   \<and> nul_free tolkien_store \<and> ref_integrity tolkien_store
   \<and> search tolkien_store (Some ''tolkien'') None = Inr \<lparr>results = [hobbit_dict], count = 1\<rparr>
   \<and> search tolkien_store (Some ''TOLKIEN'') None = Inr \<lparr>results = [hobbit_dict], count = 1\<rparr>"
proof -
  have h: "CHR ''%'' \<notin> set ''tolkien''" "CHR ''_'' \<notin> set ''tolkien''"
    "CHR 0x00 \<notin> set ''tolkien''" by simp_all
  have l: "utf8_length ''tolkien'' + 2 \<le> 50000" by code_simp
  have n: "nul_free tolkien_store" by code_simp
  have r: "ref_integrity tolkien_store" by code_simp
  have f: "filter (spec_match ''tolkien'') (book_table tolkien_store)
           = [mk_book 1 ''The Hobbit'' ''J.R.R. Tolkien'' 1]" by code_simp
  have d: "to_dicts tolkien_store [mk_book 1 ''The Hobbit'' ''J.R.R. Tolkien'' 1] = Inr [hobbit_dict]"
    by code_simp
  have u: "search tolkien_store (Some ''TOLKIEN'') None = Inr \<lparr>results = [hobbit_dict], count = 1\<rparr>"
    by code_simp
  from search_substring[of "''tolkien''" tolkien_store, OF _ h l n r] f d u h l n r
  show ?thesis by simp
qed

text \<open>
  C1, as stated, fails at the query \<^verbatim>\<open>_\<close>: no field of either book contains an
  underscore, and \<^verbatim>\<open>search\<close> returns both books.
\<close>

theorem search_wildcard_counterexample:
  "search tolkien_store (Some ''_'') None = Inr \<lparr>results = [hobbit_dict, it_dict], count = 2\<rparr>
   \<and> filter (spec_match ''_'') (book_table tolkien_store) = []"
  by code_simp

text \<open>
  The other queries that the database does not read as plain text: behind a U+0000 the
  pattern is cut, so the query of that one character finds every book; a query of 49999
  letters makes a pattern of 50001 bytes, which the database refuses.
\<close>

lemma search_nul_query:
  "search tolkien_store (Some [CHR 0x00]) None
     = Inr \<lparr>results = [hobbit_dict, it_dict], count = 2\<rparr>"
  by code_simp

lemma utf8_length_replicate: "utf8_length (replicate n CHR ''a'') = int n"
  by (induction n) (simp_all add: utf8_length_def)

lemma search_long_query:
  "search tolkien_store (Some (replicate 49999 CHR ''a'')) None = Inl OperationalError"
proof -
  let ?q = "replicate 49999 CHR ''a''"
  have "utf8_length (lower (CHR ''%'' # ?q @ ''%'')) = 50001"
    by (simp only: utf8_length_lower utf8_length_pattern utf8_length_replicate)
  then have "ilike c (CHR ''%'' # ?q @ ''%'') = Inl OperationalError" for c
    by (simp only: ilike_def) simp
  then have t: "text_match ?q b = Inl OperationalError" for b
    by (simp only: text_match_def Let_def sql_or_def append_Cons append_Nil sum.case)
  have ne: "?q \<noteq> []" by (simp only: replicate_empty)
  have "book_query tolkien_store ?q None = Inl OperationalError"
    by (simp only: book_query_def tolkien_store_def option.case store.simps where_rows.simps t sum.case)
  with ne show ?thesis by (simp only: search_def Let_def option.case if_True sum.case) simp
qed

section \<open>Search: the category filter\<close>

text \<open>
  A \<^verbatim>\<open>category\<close> parameter on which \<^verbatim>\<open>isdigit\<close> fails changes nothing: the response is
  the one of the same search without the parameter. When it is a decimal number that the
  database accepts, the books found are those of the unfiltered search that belong to
  that category.
\<close>

lemma search_category_skipped:
  "\<not> isdigit cid \<Longrightarrow> search st (Some q) (Some cid) = search st (Some q) None"
  by (simp add: search_def book_query_def)

lemma where_rows_and:
  "where_rows cond rs = Inr sel \<Longrightarrow>
   where_rows (\<lambda>b. case cond b of Inl e \<Rightarrow> Inl e | Inr t \<Rightarrow> Inr (t \<and> Q b)) rs
     = Inr (filter Q sel)"
  by (induction rs arbitrary: sel) (auto split: sum.splits if_splits)

lemma book_query_category:
  assumes "isdigit cid" and "category_param cid = Inr n" and "book_query st q None = Inr bs"
  shows "book_query st q (Some cid) = Inr (filter (\<lambda>b. category_id b = n) bs)"
  using assms where_rows_and[of "text_match q" "book_table st" bs]
  by (simp add: book_query_def isdigit_def)

text \<open>
  C7 does not hold of the code. The parameter \<^verbatim>\<open>category\<close> made of the one character
  U+00B2 (superscript two) is no integer-shaped string, yet \<^verbatim>\<open>isdigit\<close> accepts it and
  \<^verbatim>\<open>int\<close> then raises: the search ends in an error, where the same search without the
  parameter returns both books.
\<close>

theorem search_superscript_category:
  "isdigit [CHR 0xB2]
   \<and> search tolkien_store (Some ''i'') (Some [CHR 0xB2]) = Inl ValueError
   \<and> search tolkien_store (Some ''i'') None
       = Inr \<lparr>results = [hobbit_dict, it_dict], count = 2\<rparr>"
  by code_simp

section \<open>Unknown categories\<close>

lemma filter_by_name_None:
  "filter_by_name st n = None \<longleftrightarrow> (\<forall>c\<in>set (category_table st). cat_name c \<noteq> n)"
  by (auto simp: filter_by_name_def find_None_iff)

text \<open>
  C5. For a name that no category carries, both listing handlers end in the not-found
  outcome (HTTP 404): not another error, and not the successful listing of zero books.
\<close>

theorem unknown_category_not_found:
  assumes "category_name \<notin> set (map cat_name (category_table st))"
  shows "category st category_name page_arg per_page_arg = Inl NotFound
         \<and> api_category_books st category_name page_arg per_page_arg sort_by_arg = Inl NotFound
         \<and> api_category_books st category_name page_arg per_page_arg sort_by_arg
             \<noteq> Inr \<lparr>api_books = [], api_total = 0, api_pages = 0,
                     api_current_page = args_get page_arg 1\<rparr>"
proof -
  from assms have "filter_by_name st category_name = None"
    by (auto simp: filter_by_name_None)
  then show ?thesis
    by (simp add: category_def api_category_books_def first_or_404_def)
qed

theorem unknown_category_not_found_witness:
  "''NoSuchCategory'' \<notin> set (map cat_name (category_table tolkien_store))
   \<and> category tolkien_store ''NoSuchCategory'' None None = Inl NotFound
   \<and> api_category_books tolkien_store ''NoSuchCategory'' (Some 1) (Some 10) (Some ''title'')
       = Inl NotFound"
proof -
  have h: "''NoSuchCategory'' \<notin> set (map cat_name (category_table tolkien_store))"
    by (simp add: tolkien_store_def mk_category_def)
  from unknown_category_not_found[OF h] h show ?thesis by simp
qed

section \<open>The seeder runs once\<close>

lemma filter_by_name_absent:
  "filter_by_name st n = None \<longleftrightarrow> n \<notin> set (map cat_name (category_table st))"
  by (auto simp: filter_by_name_def find_None_iff)

lemma session_add_absent:
  assumes "filter_by_name st n = None"
  shows "session_add st n =
           Inr (st\<lparr>category_table := category_table st @
                  [\<lparr>cat_id = new_id st, cat_name = n, cat_description = None,
                    image_path = None\<rparr>]\<rparr>)"
  using assms by (auto simp: session_add_def filter_by_name_None list_ex_iff)

lemma seed_skip: "filter_by_name st n \<noteq> None \<Longrightarrow> seed st (n # ns) = seed st ns"
  by auto

lemma seed_total: "\<exists>st'. seed st ns = Inr st'"
proof (induction ns arbitrary: st)
  case Nil
  show ?case by simp
next
  case (Cons n ns)
  show ?case
  proof (cases "filter_by_name st n = None")
    case True
    then show ?thesis using Cons[of "st\<lparr>category_table := category_table st @
                  [\<lparr>cat_id = new_id st, cat_name = n, cat_description = None,
                    image_path = None\<rparr>]\<rparr>"] by (simp add: session_add_absent)
  next
    case False
    then have "seed st (n # ns) = seed st ns" by (rule seed_skip)
    then show ?thesis using Cons[of st] by simp
  qed
qed

lemma seed_all_present:
  "set ns \<subseteq> set (map cat_name (category_table st)) \<Longrightarrow> seed st ns = Inr st"
proof (induction ns)
  case Nil
  show ?case by simp
next
  case (Cons n ns)
  then have "filter_by_name st n \<noteq> None" by (simp add: filter_by_name_absent)
  then have "seed st (n # ns) = seed st ns" by (rule seed_skip)
  with Cons show ?case by simp
qed

lemma seed_count:
  "seed st ns = Inr st' \<Longrightarrow>
   length (filter (\<lambda>c. cat_name c = n) (category_table st')) =
     (if n \<in> set (map cat_name (category_table st))
      then length (filter (\<lambda>c. cat_name c = n) (category_table st))
      else if n \<in> set ns then 1 else 0)"
proof (induction ns arbitrary: st)
  case Nil
  then show ?case by (auto simp: filter_empty_conv)
next
  case (Cons m ns)
  show ?case
  proof (cases "filter_by_name st m = None")
    case True
    let ?st = "st\<lparr>category_table := category_table st @
                  [\<lparr>cat_id = new_id st, cat_name = m, cat_description = None,
                    image_path = None\<rparr>]\<rparr>"
    from True Cons.prems have s: "seed ?st ns = Inr st'" by (simp add: session_add_absent)
    from True have m: "m \<notin> set (map cat_name (category_table st))"
      by (simp add: filter_by_name_absent)
    show ?thesis using Cons.IH[OF s] m by (auto simp: filter_empty_conv)
  next
    case False
    then have m: "m \<in> set (map cat_name (category_table st))"
      by (simp add: filter_by_name_absent)
    from False have "seed st (m # ns) = seed st ns" by (rule seed_skip)
    with Cons.prems have s: "seed st ns = Inr st'" by simp
    show ?thesis using Cons.IH[OF s] m by auto
  qed
qed

lemma seed_names:
  "seed st ns = Inr st' \<Longrightarrow>
   set (map cat_name (category_table st')) = set (map cat_name (category_table st)) \<union> set ns"
proof (induction ns arbitrary: st)
  case Nil
  then show ?case by simp
next
  case (Cons m ns)
  show ?case
  proof (cases "filter_by_name st m = None")
    case True
    let ?st = "st\<lparr>category_table := category_table st @
                  [\<lparr>cat_id = new_id st, cat_name = m, cat_description = None,
                    image_path = None\<rparr>]\<rparr>"
    from True Cons.prems have s: "seed ?st ns = Inr st'" by (simp add: session_add_absent)
    from Cons.IH[OF s] show ?thesis by auto
  next
    case False
    then have m: "m \<in> set (map cat_name (category_table st))"
      by (simp add: filter_by_name_absent)
    from False have "seed st (m # ns) = seed st ns" by (rule seed_skip)
    with Cons.prems have s: "seed st ns = Inr st'" by simp
    from Cons.IH[OF s] m show ?thesis by auto
  qed
qed

lemma seed_books: "seed st ns = Inr st' \<Longrightarrow> book_table st' = book_table st"
proof (induction ns arbitrary: st)
  case Nil
  then show ?case by simp
next
  case (Cons m ns)
  show ?case
  proof (cases "filter_by_name st m = None")
    case True
    let ?st = "st\<lparr>category_table := category_table st @
                  [\<lparr>cat_id = new_id st, cat_name = m, cat_description = None,
                    image_path = None\<rparr>]\<rparr>"
    from True Cons.prems have s: "seed ?st ns = Inr st'" by (simp add: session_add_absent)
    from Cons.IH[OF s] show ?thesis by simp
  next
    case False
    then have "seed st (m # ns) = seed st ns" by (rule seed_skip)
    with Cons show ?thesis by simp
  qed
qed

lemma seed_appends:
  "seed st ns = Inr st' \<Longrightarrow>
   \<exists>new. category_table st' = category_table st @ new
        \<and> (\<forall>c\<in>set new. cat_name c \<notin> set (map cat_name (category_table st)))"
proof (induction ns arbitrary: st)
  case Nil
  then show ?case by simp
next
  case (Cons m ns)
  show ?case
  proof (cases "filter_by_name st m = None")
    case True
    let ?row = "\<lparr>cat_id = new_id st, cat_name = m, cat_description = None, image_path = None\<rparr>"
    let ?st = "st\<lparr>category_table := category_table st @ [?row]\<rparr>"
    from True Cons.prems have s: "seed ?st ns = Inr st'" by (simp add: session_add_absent)
    from True have m: "m \<notin> set (map cat_name (category_table st))"
      by (simp add: filter_by_name_absent)
    from Cons.IH[OF s] obtain new where
      new: "category_table st' = category_table ?st @ new"
      and fresh: "\<forall>c\<in>set new. cat_name c \<notin> set (map cat_name (category_table ?st))"
      by blast
    from new have "category_table st' = category_table st @ (?row # new)" by simp
    moreover from fresh m have
      "\<forall>c\<in>set (?row # new). cat_name c \<notin> set (map cat_name (category_table st))"
      by auto
    ultimately show ?thesis by blast
  next
    case False
    then have "seed st (m # ns) = seed st ns" by (rule seed_skip)
    with Cons show ?thesis by simp
  qed
qed

lemma seed_restricted_size:
  assumes "seed st ns = Inr st'"
  shows "filter (\<lambda>c. cat_name c \<in> set (map cat_name (category_table st))) (category_table st')
         = category_table st"
proof -
  from seed_appends[OF assms] obtain new where
    new: "category_table st' = category_table st @ new"
    and fresh: "\<forall>c\<in>set new. cat_name c \<notin> set (map cat_name (category_table st))"
    by blast
  from fresh have "filter (\<lambda>c. cat_name c \<in> set (map cat_name (category_table st))) new = []"
    by (simp add: filter_empty_conv)
  moreover have "filter (\<lambda>c. cat_name c \<in> set (map cat_name (category_table st)))
                   (category_table st) = category_table st"
    by (simp add: filter_id_conv)
  ultimately show ?thesis using new by simp
qed

text \<open>
  C4, as the code has it. Running the seeder raises no error and is idempotent: on
  every store, a second run changes nothing. No duplicate is created: the categories
  whose names the store held before the run are, after it, exactly the rows that were
  there; every seeded name is carried by as many categories as before when it was
  already in the store, and by exactly one otherwise; a store that holds all seeded
  names is left as it is. The books are untouched.
\<close>

theorem db_init_idempotent:
  "\<exists>st'. db_init st = Inr st' \<and> db_init st' = Inr st'
        \<and> book_table st' = book_table st
        \<and> filter (\<lambda>c. cat_name c \<in> set (map cat_name (category_table st)))
             (category_table st') = category_table st
        \<and> (\<forall>n\<in>set categories.
              length (filter (\<lambda>c. cat_name c = n) (category_table st')) =
                max 1 (length (filter (\<lambda>c. cat_name c = n) (category_table st))))
        \<and> (set categories \<subseteq> set (map cat_name (category_table st)) \<longrightarrow> st' = st)"
proof -
  obtain st' where s: "seed st categories = Inr st'" using seed_total by blast
  have "set categories \<subseteq> set (map cat_name (category_table st'))"
    using seed_names[OF s] by simp
  then have again: "seed st' categories = Inr st'" by (rule seed_all_present)
  have cnt: "length (filter (\<lambda>c. cat_name c = n) (category_table st')) =
                max 1 (length (filter (\<lambda>c. cat_name c = n) (category_table st)))"
    if n: "n \<in> set categories" for n
  proof (cases "n \<in> set (map cat_name (category_table st))")
    case True
    then have "filter (\<lambda>c. cat_name c = n) (category_table st) \<noteq> []"
      by (auto simp: filter_empty_conv)
    then have "1 \<le> length (filter (\<lambda>c. cat_name c = n) (category_table st))"
      by (cases "filter (\<lambda>c. cat_name c = n) (category_table st)") auto
    with seed_count[OF s, of n] True show ?thesis by simp
  next
    case False
    then have "filter (\<lambda>c. cat_name c = n) (category_table st) = []"
      by (auto simp: filter_empty_conv)
    with seed_count[OF s, of n] False n show ?thesis by simp
  qed
  have same: "st' = st" if "set categories \<subseteq> set (map cat_name (category_table st))"
    using seed_all_present[OF that] s by simp
  show ?thesis
    unfolding db_init_def
    using s again seed_books[OF s] seed_restricted_size[OF s] cnt same by blast
qed

theorem db_init_idempotent_witness:
  "db_init tolkien_store = Inr seeded_store \<and> db_init seeded_store = Inr seeded_store
   \<and> filter (\<lambda>c. cat_name c \<in> set (map cat_name (category_table tolkien_store)))
        (category_table seeded_store) = category_table tolkien_store
   \<and> ''Fiction'' \<in> set categories \<and> ''Academic'' \<in> set categories
   \<and> length (filter (\<lambda>c. cat_name c = ''Fiction'') (category_table seeded_store)) = 1
   \<and> length (filter (\<lambda>c. cat_name c = ''Academic'') (category_table seeded_store)) = 1"
proof -
  from db_init_idempotent[of tolkien_store] obtain st' where
    a: "db_init tolkien_store = Inr st'" and b: "db_init st' = Inr st'"
    and r: "filter (\<lambda>c. cat_name c \<in> set (map cat_name (category_table tolkien_store)))
             (category_table st') = category_table tolkien_store"
    and c: "\<forall>n\<in>set categories.
              length (filter (\<lambda>c. cat_name c = n) (category_table st')) =
                max 1 (length (filter (\<lambda>c. cat_name c = n) (category_table tolkien_store)))"
    by blast
  have e: "db_init tolkien_store = Inr seeded_store" by code_simp
  with a have st': "st' = seeded_store" by simp
  have f: "''Fiction'' \<in> set categories" "''Academic'' \<in> set categories"
    by (simp_all add: categories_def)
  have g: "length (filter (\<lambda>c. cat_name c = ''Fiction'') (category_table tolkien_store)) = 1"
    by (simp add: tolkien_store_def mk_category_def)
  have h: "filter (\<lambda>c. cat_name c = ''Academic'') (category_table tolkien_store) = []"
    by (simp add: tolkien_store_def mk_category_def)
  from c f(2) h have "length (filter (\<lambda>c. cat_name c = ''Academic'') (category_table st')) = 1"
    by simp
  moreover from c f(1) g have
    "length (filter (\<lambda>c. cat_name c = ''Fiction'') (category_table st')) = 1"
    by simp
  ultimately show ?thesis using b e f r unfolding st' by simp
qed

text \<open>
  C4, as stated, fails on a store that holds only some of the seeded names: the run adds
  the missing ones, so the number of categories with a seeded name grows, here from two
  to eight.
\<close>

theorem db_init_partial_store_counterexample:
  "db_init tolkien_store = Inr seeded_store
   \<and> length (seeded_categories tolkien_store) = 2
   \<and> length (seeded_categories seeded_store) = 8"
  by code_simp

text \<open>
  C9. The vocabulary is the eight names in the order of the source, and seeding the empty
  store creates exactly these eight categories, in that order, with the keys 1 to 8.
\<close>

theorem db_init_vocabulary:
  "categories = [''Academic'', ''Criminology'', ''Fiction'', ''Thesis'',
                 ''Financial'', ''Religion'', ''Self-Growth'', ''Technology'']
   \<and> db_init empty_store =
       Inr \<lparr>category_table =
              [mk_category 1 ''Academic'', mk_category 2 ''Criminology'',
               mk_category 3 ''Fiction'', mk_category 4 ''Thesis'',
               mk_category 5 ''Financial'', mk_category 6 ''Religion'',
               mk_category 7 ''Self-Growth'', mk_category 8 ''Technology''],
            book_table = []\<rparr>"
  by code_simp

section \<open>Pagination\<close>

text \<open>
  A page request is answered unless its limit or its offset does not fit 64 bits.
\<close>

lemma prepare_page_args_bounds:
  assumes "prepare_page_args page per_page = (p, pp)"
  shows "1 \<le> p" and "1 \<le> pp" and "1 \<le> page \<Longrightarrow> p = page"
    and "1 \<le> per_page \<Longrightarrow> pp = per_page"
  using assms by (auto simp: prepare_page_args_def split: if_splits)

lemma bind_int_nonneg: "0 \<le> n \<Longrightarrow> bind_int n = (if max_int64 < n then Inl OverflowError else Inr n)"
  by (simp add: bind_int_def max_int64_def)

lemma paginate_eq:
  assumes "prepare_page_args page per_page = (p, pp)"
  shows "paginate q page per_page =
           (if pp \<le> max_int64 \<and> (p - 1) * pp \<le> max_int64
            then Inr \<lparr>pg_page = p, pg_per_page = pp, pg_total = length q,
                      pg_items = take (nat pp) (drop (nat ((p - 1) * pp)) q)\<rparr>
            else Inl OverflowError)"
proof -
  from prepare_page_args_bounds[OF assms] have "0 \<le> pp" and "0 \<le> (p - 1) * pp"
    by simp_all
  then show ?thesis
    using assms by (auto simp: paginate_def bind_int_nonneg)
qed

lemma paginate_Inr:
  assumes "paginate q page per_page = Inr pg"
  obtains p pp where "prepare_page_args page per_page = (p, pp)"
    and "pp \<le> max_int64" and "(p - 1) * pp \<le> max_int64"
    and "pg = \<lparr>pg_page = p, pg_per_page = pp, pg_total = length q,
                pg_items = take (nat pp) (drop (nat ((p - 1) * pp)) q)\<rparr>"
proof -
  obtain p pp where a: "prepare_page_args page per_page = (p, pp)" by (cases "prepare_page_args page per_page")
  with assms paginate_eq[OF a, of q] that show ?thesis by (auto split: if_splits)
qed

text \<open>
  The number of pages times the page size covers the whole query, so the offset of any
  later page lies at or beyond its end.
\<close>

lemma ceil_div_covers:
  fixes t pp :: int
  assumes "1 \<le> pp"
  shows "t \<le> ((t + pp - 1) div pp) * pp"
proof -
  have "t + pp - 1 = ((t + pp - 1) div pp) * pp + (t + pp - 1) mod pp" by simp
  moreover have "(t + pp - 1) mod pp < pp" using assms by simp
  ultimately show ?thesis by linarith
qed

lemma paginate_beyond:
  assumes "paginate q page per_page = Inr pg" and "pg_pages pg < page"
  shows "pg_items pg = [] \<and> pg_page pg = page"
proof -
  from assms(1) obtain p pp where a: "prepare_page_args page per_page = (p, pp)"
    and pg: "pg = \<lparr>pg_page = p, pg_per_page = pp, pg_total = length q,
                pg_items = take (nat pp) (drop (nat ((p - 1) * pp)) q)\<rparr>"
    by (rule paginate_Inr)
  from prepare_page_args_bounds[OF a] have pp: "1 \<le> pp" and same: "1 \<le> page \<Longrightarrow> p = page"
    by simp_all
  have pages: "pg_pages pg = (if length q = 0 then 0 else (int (length q) + pp - 1) div pp)"
    by (simp add: pg_pages_def pg)
  have "0 \<le> pg_pages pg"
    using pp by (simp add: pages pos_imp_zdiv_nonneg_iff)
  with assms(2) have page: "1 \<le> page" by linarith
  with same have p: "p = page" by simp
  have cover: "int (length q) \<le> (page - 1) * pp"
  proof (cases "length q = 0")
    case True
    with page pp show ?thesis by simp
  next
    case False
    with assms(2) pages have "(int (length q) + pp - 1) div pp \<le> page - 1" by simp
    then have "((int (length q) + pp - 1) div pp) * pp \<le> (page - 1) * pp"
      using pp by (simp add: mult_right_mono)
    with ceil_div_covers[OF pp, of "int (length q)"] show ?thesis by linarith
  qed
  then have "length q \<le> nat ((page - 1) * pp)" by linarith
  then have "drop (nat ((page - 1) * pp)) q = []" by simp
  with p show ?thesis by (simp add: pg)
qed

lemma pg_pages_ceil:
  assumes "paginate q page per_page = Inr pg" and "1 \<le> per_page"
  shows "pg_pages pg = (int (length q) + per_page - 1) div per_page"
proof -
  from assms(1) obtain p pp where a: "prepare_page_args page per_page = (p, pp)"
    and pg: "pg = \<lparr>pg_page = p, pg_per_page = pp, pg_total = length q,
                pg_items = take (nat pp) (drop (nat ((p - 1) * pp)) q)\<rparr>"
    by (rule paginate_Inr)
  from prepare_page_args_bounds(4)[OF a assms(2)] have "pp = per_page" .
  with assms(2) show ?thesis by (simp add: pg_pages_def pg div_pos_pos_trivial)
qed

lemma filter_by_name_in:
  "filter_by_name st n = Some c \<Longrightarrow> c \<in> set (category_table st) \<and> cat_name c = n"
  by (auto simp: filter_by_name_def find_Some_iff)

lemma book_category_found:
  "c \<in> set (category_table st) \<Longrightarrow> category_id b = cat_id c \<Longrightarrow> book_category st b \<noteq> None"
  by (auto simp: book_category_def find_None_iff)

lemma set_order_by: "set (order_by s q) = set q"
  by (simp add: order_by_def)

lemma length_order_by: "length (order_by s q) = length q"
  by (simp add: order_by_def)

lemma set_pg_items: "paginate q p pp = Inr pg \<Longrightarrow> set (pg_items pg) \<subseteq> set q"
proof -
  assume "paginate q p pp = Inr pg"
  then obtain n m where "pg_items pg = take n (drop m q)"
    by (rule paginate_Inr) simp
  then show ?thesis
    using set_take_subset[of n "drop m q"] set_drop_subset[of m q] by auto
qed

lemma paginate_same_length:
  assumes "length q' = length q" and "paginate q page per_page = Inr pg"
  obtains pg' where "paginate q' page per_page = Inr pg'" and "pg_pages pg' = pg_pages pg"
    and "pg_total pg' = length q" and "pg_page pg' = pg_page pg"
proof -
  from assms(2) obtain p pp where a: "prepare_page_args page per_page = (p, pp)"
    and r: "pp \<le> max_int64" "(p - 1) * pp \<le> max_int64"
    and pg: "pg = \<lparr>pg_page = p, pg_per_page = pp, pg_total = length q,
                pg_items = take (nat pp) (drop (nat ((p - 1) * pp)) q)\<rparr>"
    by (rule paginate_Inr)
  let ?pg' = "\<lparr>pg_page = p, pg_per_page = pp, pg_total = length q',
                pg_items = take (nat pp) (drop (nat ((p - 1) * pp)) q')\<rparr>"
  have "paginate q' page per_page = Inr ?pg'" using paginate_eq[OF a, of q'] r by simp
  moreover have "pg_pages ?pg' = pg_pages pg" "pg_total ?pg' = length q" "pg_page ?pg' = pg_page pg"
    using assms(1) by (simp_all add: pg_pages_def pg)
  ultimately show ?thesis using that by blast
qed

lemma items_serialise:
  assumes "filter_by_name st n = Some c"
    and "set items \<subseteq> set (filter_by_category_id st (cat_id c))"
  shows "\<exists>ds. to_dicts st items = Inr ds \<and> length ds = length items"
proof -
  from assms(1) have c: "c \<in> set (category_table st)" by (simp add: filter_by_name_in)
  from assms(2) have "\<forall>b\<in>set items. category_id b = cat_id c"
    by (auto simp: filter_by_category_id_def)
  then have "list_all (\<lambda>b. book_category st b \<noteq> None) items"
    using book_category_found[OF c] by (simp add: list_all_iff)
  then show ?thesis by (rule to_dicts_total)
qed

lemma api_category_books_found:
  assumes "filter_by_name st n = Some c"
    and "paginate (order_by (args_get sort_by_arg ''relevance'')
           (filter_by_category_id st (cat_id c))) (args_get page_arg 1) (args_get per_page_arg 10)
         = Inr pg"
  shows "\<exists>ds. to_dicts st (pg_items pg) = Inr ds
          \<and> api_category_books st n page_arg per_page_arg sort_by_arg =
              Inr \<lparr>api_books = ds,
                   api_total = length (filter_by_category_id st (cat_id c)),
                   api_pages = pg_pages pg,
                   api_current_page = args_get page_arg 1\<rparr>"
proof -
  have "set (pg_items pg) \<subseteq> set (filter_by_category_id st (cat_id c))"
    using set_pg_items[OF assms(2)] by (simp add: set_order_by)
  from items_serialise[OF assms(1) this] obtain ds where "to_dicts st (pg_items pg) = Inr ds"
    by blast
  with assms show ?thesis
    by (simp add: api_category_books_def first_or_404_def Let_def length_order_by)
qed

lemma category_found:
  assumes "filter_by_name st n = Some c"
    and "paginate (filter_by_category_id st (cat_id c)) (args_get page_arg 1)
           (args_get per_page_arg 10) = Inr pg"
  shows "category st n page_arg per_page_arg =
           Inr \<lparr>cp_category = c, cp_books = pg_items pg, cp_pagination = pg,
                cp_total_books = length (filter_by_category_id st (cat_id c))\<rparr>"
  using assms by (simp add: category_def first_or_404_def Let_def)

text \<open>
  C3, as the code has it. For an existing category and a page request whose limit and
  offset fit the 64-bit integers of the database, both listings succeed, with the
  metadata of the query: the total is the number of books of the category, the number of
  pages is that total divided by the page size, rounded up, and the API echoes the page
  requested. A page number beyond the number of pages gives an empty list of items, not
  an error.
\<close>

theorem page_beyond_last:
  assumes "filter_by_name st category_name = Some c"
    and "prepare_page_args page per_page = (p, pp)"
    and "pp \<le> max_int64" and "(p - 1) * pp \<le> max_int64"
  shows "\<exists>r a. category st category_name (Some page) (Some per_page) = Inr r
           \<and> api_category_books st category_name (Some page) (Some per_page) sort_by_arg = Inr a
           \<and> cp_total_books r = length (filter_by_category_id st (cat_id c))
           \<and> pg_total (cp_pagination r) = length (filter_by_category_id st (cat_id c))
           \<and> api_total a = length (filter_by_category_id st (cat_id c))
           \<and> api_pages a = pg_pages (cp_pagination r)
           \<and> api_current_page a = page
           \<and> (1 \<le> per_page \<longrightarrow>
                api_pages a =
                  (int (length (filter_by_category_id st (cat_id c))) + per_page - 1) div per_page)
           \<and> (pg_pages (cp_pagination r) < page \<longrightarrow>
                cp_books r = [] \<and> pg_page (cp_pagination r) = page \<and> api_books a = [])"
proof -
  let ?q = "filter_by_category_id st (cat_id c)"
  let ?s = "order_by (args_get sort_by_arg ''relevance'') ?q"
  let ?pg = "\<lparr>pg_page = p, pg_per_page = pp, pg_total = length ?q,
              pg_items = take (nat pp) (drop (nat ((p - 1) * pp)) ?q)\<rparr>"
  have pg: "paginate ?q page per_page = Inr ?pg"
    using paginate_eq[OF assms(2), of ?q] assms(3,4) by simp
  let ?r = "\<lparr>cp_category = c, cp_books = pg_items ?pg, cp_pagination = ?pg,
             cp_total_books = length ?q\<rparr>"
  have r: "category st category_name (Some page) (Some per_page) = Inr ?r"
    using category_found[OF assms(1), of "Some page" "Some per_page" ?pg] pg
    by (simp add: args_get_def)
  obtain pg' where pg': "paginate ?s page per_page = Inr pg'"
    and pages: "pg_pages pg' = pg_pages ?pg"
    using paginate_same_length[OF length_order_by pg] by blast
  obtain ds where ds: "to_dicts st (pg_items pg') = Inr ds"
    and a: "api_category_books st category_name (Some page) (Some per_page) sort_by_arg =
              Inr \<lparr>api_books = ds, api_total = length ?q,
                   api_pages = pg_pages pg', api_current_page = page\<rparr>"
    using api_category_books_found[OF assms(1), of sort_by_arg "Some page" "Some per_page" pg'] pg'
    by (auto simp: args_get_def)
  have empty: "ds = []" if "pg_pages ?pg < page"
  proof -
    from that pages have "pg_pages pg' < page" by simp
    from paginate_beyond[OF pg' this] ds show ?thesis by simp
  qed
  have ceil: "pg_pages ?pg = (int (length ?q) + per_page - 1) div per_page" if "1 \<le> per_page"
    using pg_pages_ceil[OF pg that] .
  have beyond: "pg_items ?pg = [] \<and> pg_page ?pg = page" if "pg_pages ?pg < page"
    using paginate_beyond[OF pg that] .
  let ?a = "\<lparr>api_books = ds, api_total = length ?q, api_pages = pg_pages pg',
             api_current_page = page\<rparr>"
  have "cp_total_books ?r = length ?q \<and> pg_total (cp_pagination ?r) = length ?q
        \<and> api_total ?a = length ?q \<and> api_pages ?a = pg_pages (cp_pagination ?r)
        \<and> api_current_page ?a = page
        \<and> (1 \<le> per_page \<longrightarrow> api_pages ?a = (int (length ?q) + per_page - 1) div per_page)
        \<and> (pg_pages (cp_pagination ?r) < page \<longrightarrow>
              cp_books ?r = [] \<and> pg_page (cp_pagination ?r) = page \<and> api_books ?a = [])"
    using pages ceil beyond empty by auto
  with r a show ?thesis by blast
qed

theorem page_beyond_last_witness:
  "filter_by_name fiction_store ''Fiction'' = Some (mk_category 1 ''Fiction'')
   \<and> prepare_page_args 4 10 = (4, 10) \<and> 10 \<le> max_int64 \<and> (4 - 1) * 10 \<le> max_int64
   \<and> (\<exists>r a. category fiction_store ''Fiction'' (Some 4) (Some 10) = Inr r
          \<and> api_category_books fiction_store ''Fiction'' (Some 4) (Some 10) None = Inr a
          \<and> cp_books r = [] \<and> cp_total_books r = 25 \<and> pg_pages (cp_pagination r) = 3
          \<and> api_books a = [] \<and> api_total a = 25 \<and> api_pages a = 3 \<and> api_current_page a = 4)
   \<and> (\<exists>a. api_category_books fiction_store ''Fiction'' (Some 1) (Some 10) None = Inr a
          \<and> length (api_books a) = 10 \<and> api_total a = 25 \<and> api_pages a = 3
          \<and> api_current_page a = 1)"
proof -
  have c: "filter_by_name fiction_store ''Fiction'' = Some (mk_category 1 ''Fiction'')"
    by code_simp
  have n: "length (filter_by_category_id fiction_store (cat_id (mk_category 1 ''Fiction''))) = 25"
    by code_simp
  have a4: "prepare_page_args 4 10 = (4, 10)" and a1: "prepare_page_args 1 10 = (1, 10)"
    by (simp_all add: prepare_page_args_def)
  have b: "(10::int) \<le> max_int64" "((4::int) - 1) * 10 \<le> max_int64"
    "((1::int) - 1) * 10 \<le> max_int64"
    by (simp_all add: max_int64_def)
  from page_beyond_last[OF c a4 b(1,2), of None] n
  have four: "\<exists>r a. category fiction_store ''Fiction'' (Some 4) (Some 10) = Inr r
          \<and> api_category_books fiction_store ''Fiction'' (Some 4) (Some 10) None = Inr a
          \<and> cp_books r = [] \<and> cp_total_books r = 25 \<and> pg_pages (cp_pagination r) = 3
          \<and> api_books a = [] \<and> api_total a = 25 \<and> api_pages a = 3 \<and> api_current_page a = 4"
    by auto
  have ten: "map_sum id (\<lambda>a. length (api_books a))
               (api_category_books fiction_store ''Fiction'' (Some 1) (Some 10) None) = Inr 10"
    by code_simp
  from page_beyond_last[OF c a1 b(1,3), of None] n ten
  have one: "\<exists>a. api_category_books fiction_store ''Fiction'' (Some 1) (Some 10) None = Inr a
          \<and> length (api_books a) = 10 \<and> api_total a = 25 \<and> api_pages a = 3
          \<and> api_current_page a = 1"
    by auto
  from c a4 b(1,2) four one show ?thesis by blast
qed

text \<open>
  C3, as stated, fails for a page whose offset does not fit 64 bits: page
  922337203685477582 of ten books each lies beyond the last of the three pages, and both
  listings raise instead of returning an empty list.
\<close>

theorem page_overflow_counterexample:
  "category fiction_store ''Fiction'' (Some 922337203685477582) (Some 10) = Inl OverflowError
   \<and> api_category_books fiction_store ''Fiction'' (Some 922337203685477582) (Some 10) None
       = Inl OverflowError"
  by code_simp

section \<open>Sort orders of the API listing\<close>

lemma to_dict_fields:
  "to_dict st b = Inr d \<Longrightarrow>
   dict_str d ''title'' = Some (title b) \<and> dict_str d ''published_date'' = published_date b"
  by (auto simp: to_dict_def dict_str_def opt_str_def split: option.splits)

lemma to_dicts_fields:
  "to_dicts st bs = Inr ds \<Longrightarrow>
   map (\<lambda>d. dict_str d ''title'') ds = map (\<lambda>b. Some (title b)) bs
   \<and> map (\<lambda>d. dict_str d ''published_date'') ds = map published_date bs"
proof (induction bs arbitrary: ds)
  case Nil
  then show ?case by simp
next
  case (Cons b bs)
  from Cons.prems obtain d ds' where d: "to_dict st b = Inr d" and ds': "to_dicts st bs = Inr ds'"
    and ds: "ds = d # ds'"
    by (auto split: sum.splits)
  from Cons.IH[OF ds'] to_dict_fields[OF d] ds show ?case by simp
qed

lemma sorted_map_Some:
  fixes xs :: "'a::linorder list"
  shows "sorted xs \<Longrightarrow> sorted (map Some xs)"
  by (induction xs) auto

lemma sorted_slice_title:
  "sorted (map title (take n (drop m (sort_key title q))))"
proof -
  have "sorted (take n (drop m (map title (sort_key title q))))"
    by (intro sorted_wrt_take sorted_wrt_drop sorted_sort_key)
  then show ?thesis by (simp add: take_map drop_map)
qed

lemma sorted_slice_date:
  "sorted (rev (map published_date
     (take n (drop m (rev (sort_key published_date q))))))"
proof -
  have "sorted_wrt (\<lambda>x y. y \<le> x) (map published_date (rev (sort_key published_date q)))"
    using sorted_sort_key[of published_date q] by (simp add: rev_map[symmetric] sorted_wrt_rev)
  then have "sorted_wrt (\<lambda>x y. y \<le> x)
               (take n (drop m (map published_date (rev (sort_key published_date q)))))"
    by (intro sorted_wrt_take sorted_wrt_drop)
  then have "sorted_wrt (\<lambda>x y. y \<le> x)
               (map published_date (take n (drop m (rev (sort_key published_date q)))))"
    by (simp add: take_map drop_map)
  then show ?thesis by (simp add: sorted_wrt_rev)
qed

text \<open>
  C2, as the code has it. For an existing category and a page request whose limit and
  offset fit the 64-bit integers of the database, the API listing succeeds for every
  value of \<^verbatim>\<open>sort_by\<close>. With \<^verbatim>\<open>title\<close> the titles of the items returned are in
  non-decreasing lexicographic order; with \<^verbatim>\<open>date\<close> their publication dates are in
  non-increasing order as strings (a missing date below every string); with any other
  value, or none, the items are the page cut from the books of the category in the
  store's own order.
\<close>

theorem api_sort_order:
  assumes "filter_by_name st category_name = Some c"
    and "prepare_page_args (args_get page_arg 1) (args_get per_page_arg 10) = (p, pp)"
    and "pp \<le> max_int64" and "(p - 1) * pp \<le> max_int64"
  shows "\<exists>a. api_category_books st category_name page_arg per_page_arg sort_by_arg = Inr a
          \<and> (sort_by_arg = Some ''title'' \<longrightarrow>
                sorted (map (\<lambda>d. dict_str d ''title'') (api_books a)))
          \<and> (sort_by_arg = Some ''date'' \<longrightarrow>
                sorted (rev (map (\<lambda>d. dict_str d ''published_date'') (api_books a))))
          \<and> (sort_by_arg \<noteq> Some ''title'' \<and> sort_by_arg \<noteq> Some ''date'' \<longrightarrow>
                to_dicts st (take (nat pp) (drop (nat ((p - 1) * pp))
                               (filter_by_category_id st (cat_id c))))
                  = Inr (api_books a))"
proof -
  let ?q = "filter_by_category_id st (cat_id c)"
  let ?s = "order_by (args_get sort_by_arg ''relevance'') ?q"
  let ?items = "take (nat pp) (drop (nat ((p - 1) * pp)) ?s)"
  let ?pg = "\<lparr>pg_page = p, pg_per_page = pp, pg_total = length ?s, pg_items = ?items\<rparr>"
  have pg: "paginate ?s (args_get page_arg 1) (args_get per_page_arg 10) = Inr ?pg"
    using paginate_eq[OF assms(2), of ?s] assms(3,4) by simp
  obtain ds where ds: "to_dicts st ?items = Inr ds"
    and a: "api_category_books st category_name page_arg per_page_arg sort_by_arg =
              Inr \<lparr>api_books = ds, api_total = length ?q,
                   api_pages = pg_pages ?pg, api_current_page = args_get page_arg 1\<rparr>"
    using api_category_books_found[OF assms(1) pg] by auto
  note f = to_dicts_fields[OF ds]
  have t: "sorted (map (\<lambda>d. dict_str d ''title'') ds)" if "sort_by_arg = Some ''title''"
  proof -
    from that have "?s = sort_key title ?q" by (simp add: order_by_def args_get_def)
    then have "sorted (map title ?items)" using sorted_slice_title by simp
    then have "sorted (map Some (map title ?items))" by (rule sorted_map_Some)
    with f show ?thesis by (simp add: comp_def)
  qed
  have d: "sorted (rev (map (\<lambda>d. dict_str d ''published_date'') ds))"
    if "sort_by_arg = Some ''date''"
  proof -
    from that have "?s = rev (sort_key published_date (rev ?q))"
      by (simp add: order_by_def args_get_def)
    then have "sorted (rev (map published_date ?items))" using sorted_slice_date by simp
    with f show ?thesis by simp
  qed
  have n: "to_dicts st (take (nat pp) (drop (nat ((p - 1) * pp)) ?q)) = Inr ds"
    if "sort_by_arg \<noteq> Some ''title''" "sort_by_arg \<noteq> Some ''date''"
  proof -
    from that have "?s = ?q"
      by (cases sort_by_arg) (auto simp: order_by_def args_get_def)
    with ds show ?thesis by simp
  qed
  from a t d n show ?thesis by simp
qed

theorem api_sort_order_witness:
  "filter_by_name shelf_store ''Fiction'' = Some (mk_category 1 ''Fiction'')
   \<and> prepare_page_args (args_get None 1) (args_get None 10) = (1, 10)
   \<and> 10 \<le> max_int64 \<and> (1 - 1) * 10 \<le> max_int64
   \<and> (\<exists>a. api_category_books shelf_store ''Fiction'' None None (Some ''title'') = Inr a
         \<and> sorted (map (\<lambda>d. dict_str d ''title'') (api_books a))
         \<and> map (\<lambda>d. dict_str d ''title'') (api_books a)
             = [Some ''Alpha'', Some ''Beta'', Some ''Gamma''])
   \<and> (\<exists>a. api_category_books shelf_store ''Fiction'' None None (Some ''date'') = Inr a
         \<and> sorted (rev (map (\<lambda>d. dict_str d ''published_date'') (api_books a)))
         \<and> map (\<lambda>d. dict_str d ''published_date'') (api_books a)
             = [Some ''2020'', Some ''2001'', None])
   \<and> (\<exists>a. api_category_books shelf_store ''Fiction'' None None None = Inr a
         \<and> map (\<lambda>d. dict_str d ''title'') (api_books a)
             = [Some ''Gamma'', Some ''Alpha'', Some ''Beta''])"
proof -
  have c: "filter_by_name shelf_store ''Fiction'' = Some (mk_category 1 ''Fiction'')"
    by code_simp
  have p: "prepare_page_args (args_get None 1) (args_get None 10) = (1, 10)"
    by (simp add: prepare_page_args_def args_get_def)
  have b: "(10::int) \<le> max_int64" "((1::int) - 1) * 10 \<le> max_int64"
    by (simp_all add: max_int64_def)
  have t: "map_sum id (\<lambda>a. map (\<lambda>d. dict_str d ''title'') (api_books a))
             (api_category_books shelf_store ''Fiction'' None None (Some ''title''))
           = Inr [Some ''Alpha'', Some ''Beta'', Some ''Gamma'']"
    by code_simp
  have d: "map_sum id (\<lambda>a. map (\<lambda>d. dict_str d ''published_date'') (api_books a))
             (api_category_books shelf_store ''Fiction'' None None (Some ''date''))
           = Inr [Some ''2020'', Some ''2001'', None]"
    by code_simp
  have n: "map_sum id (\<lambda>a. map (\<lambda>d. dict_str d ''title'') (api_books a))
             (api_category_books shelf_store ''Fiction'' None None None)
           = Inr [Some ''Gamma'', Some ''Alpha'', Some ''Beta'']"
    by code_simp
  from api_sort_order[OF c p b, of "Some ''title''"] t
  have 1: "\<exists>a. api_category_books shelf_store ''Fiction'' None None (Some ''title'') = Inr a
         \<and> sorted (map (\<lambda>d. dict_str d ''title'') (api_books a))
         \<and> map (\<lambda>d. dict_str d ''title'') (api_books a)
             = [Some ''Alpha'', Some ''Beta'', Some ''Gamma'']"
    by auto
  from api_sort_order[OF c p b, of "Some ''date''"] d
  have 2: "\<exists>a. api_category_books shelf_store ''Fiction'' None None (Some ''date'') = Inr a
         \<and> sorted (rev (map (\<lambda>d. dict_str d ''published_date'') (api_books a)))
         \<and> map (\<lambda>d. dict_str d ''published_date'') (api_books a)
             = [Some ''2020'', Some ''2001'', None]"
    by auto
  from api_sort_order[OF c p b, of None] n
  have 3: "\<exists>a. api_category_books shelf_store ''Fiction'' None None None = Inr a
         \<and> map (\<lambda>d. dict_str d ''title'') (api_books a)
             = [Some ''Gamma'', Some ''Alpha'', Some ''Beta'']"
    by auto
  from c p b 1 2 3 show ?thesis by blast
qed

text \<open>
  C2, as stated, fails for a page whose offset does not fit 64 bits: whatever the sort
  order, the listing raises instead of succeeding.
\<close>

theorem api_sort_overflow_counterexample:
  "api_category_books shelf_store ''Fiction'' (Some 922337203685477582) (Some 10) None
     = Inl OverflowError
   \<and> api_category_books shelf_store ''Fiction'' (Some 922337203685477582) (Some 10)
       (Some ''title'') = Inl OverflowError
   \<and> api_category_books shelf_store ''Fiction'' (Some 922337203685477582) (Some 10)
       (Some ''date'') = Inl OverflowError"
  by code_simp

section \<open>Availability\<close>

lemma to_dicts_member:
  "to_dicts st bs = Inr ds \<Longrightarrow> b \<in> set bs \<Longrightarrow> \<exists>d. to_dict st b = Inr d \<and> d \<in> set ds"
proof (induction bs arbitrary: ds)
  case Nil
  then show ?case by simp
next
  case (Cons x bs)
  from Cons.prems(1) obtain d ds' where d: "to_dict st x = Inr d" and ds': "to_dicts st bs = Inr ds'"
    and ds: "ds = d # ds'"
    by (auto split: sum.splits)
  show ?case
  proof (cases "b = x")
    case True
    with d ds show ?thesis by simp
  next
    case False
    with Cons.prems(2) have "b \<in> set bs" by simp
    from Cons.IH[OF ds' this] ds show ?thesis by auto
  qed
qed

lemma page_cover:
  assumes "b \<in> set q" and "1 \<le> pp" and "pp \<le> max_int64"
    and "int (length q) \<le> max_int64"
  shows "\<exists>page pg. 1 \<le> page \<and> paginate q page pp = Inr pg \<and> b \<in> set (pg_items pg)"
proof -
  from assms(1) obtain i where i: "i < length q" "q ! i = b" by (auto simp: in_set_conv_nth)
  define n where "n = nat pp"
  from assms(2) have n: "0 < n" "int n = pp" by (simp_all add: n_def)
  define k where "k = i div n"
  have split: "k * n + i mod n = i" by (simp add: k_def)
  have r: "i mod n < n" using n by simp
  have off: "(int k + 1 - 1) * pp = int (k * n)"
    using n(2) by simp
  have le: "k * n \<le> i" using split by linarith
  with i(1) assms(4) have range: "(int k + 1 - 1) * pp \<le> max_int64"
    unfolding off by linarith
  have len: "i mod n < length (drop (k * n) q)" using i(1) split by simp
  have "take n (drop (k * n) q) ! (i mod n) = q ! (k * n + i mod n)"
    using r len by simp
  with split i(2) have "take n (drop (k * n) q) ! (i mod n) = b" by simp
  moreover have "i mod n < length (take n (drop (k * n) q))" using r len by simp
  ultimately have m: "b \<in> set (take n (drop (k * n) q))" by (metis nth_mem)
  have a: "prepare_page_args (int k + 1) pp = (int k + 1, pp)"
    using assms(2) by (simp add: prepare_page_args_def)
  let ?pg = "\<lparr>pg_page = int k + 1, pg_per_page = pp, pg_total = length q,
              pg_items = take (nat pp) (drop (nat ((int k + 1 - 1) * pp)) q)\<rparr>"
  have "paginate q (int k + 1) pp = Inr ?pg"
    using paginate_eq[OF a, of q] assms(3) range by simp
  moreover have "b \<in> set (pg_items ?pg)"
  proof -
    have "nat (int k * pp) = k * nat pp"
      using assms(2) by (simp add: nat_mult_distrib)
    with m assms(2) show ?thesis by (simp add: n_def)
  qed
  moreover have "1 \<le> int k + 1" by simp
  ultimately show ?thesis by blast
qed

lemma text_match_defined:
  assumes "text_match q b = Inr t"
  shows "\<exists>t'. text_match q b' = Inr t'"
proof -
  have "\<not> 50000 < utf8_length (lower (''%'' @ q @ ''%''))"
    using assms by (auto simp: text_match_def ilike_def sql_or_def Let_def split: if_splits)
  then show ?thesis
    by (auto simp: text_match_def ilike_def sql_or_def Let_def)
qed

lemma where_rows_member:
  assumes "\<forall>r\<in>set rs. \<exists>t. cond r = Inr t" and "b \<in> set rs" and "cond b = Inr True"
  shows "\<exists>sel. where_rows cond rs = Inr sel \<and> b \<in> set sel \<and> set sel \<subseteq> set rs"
  using assms
proof (induction rs)
  case Nil
  then show ?case by simp
next
  case (Cons r rs)
  from Cons.prems(1) obtain t where t: "cond r = Inr t" by auto
  show ?case
  proof (cases "b \<in> set rs")
    case True
    with Cons obtain sel where "where_rows cond rs = Inr sel" "b \<in> set sel" "set sel \<subseteq> set rs"
      by auto
    with t show ?thesis by auto
  next
    case False
    with Cons.prems(2) have br: "b = r" by simp
    have "\<exists>sel. where_rows cond rs = Inr sel \<and> set sel \<subseteq> set rs"
      using Cons.prems(1)
    proof (induction rs)
      case Nil
      then show ?case by simp
    next
      case (Cons x xs)
      then obtain sel tx where "where_rows cond xs = Inr sel" "set sel \<subseteq> set xs"
        and "cond x = Inr tx" by auto
      then show ?case by auto
    qed
    then obtain sel where "where_rows cond rs = Inr sel" "set sel \<subseteq> set rs" by blast
    with t br Cons.prems(3) show ?thesis by auto
  qed
qed

lemma book_query_member:
  assumes "b \<in> set (book_table st)" and "text_match q b = Inr True"
    and "case category_arg of None \<Rightarrow> True
         | Some s \<Rightarrow> isdigit s \<longrightarrow> category_param s = Inr (category_id b)"
  shows "\<exists>bs. book_query st q category_arg = Inr bs \<and> b \<in> set bs
              \<and> set bs \<subseteq> set (book_table st)"
proof -
  have all: "\<forall>r\<in>set (book_table st). \<exists>t. text_match q r = Inr t"
    using text_match_defined[OF assms(2)] by blast
  have plain: "\<exists>bs. where_rows (text_match q) (book_table st) = Inr bs \<and> b \<in> set bs
              \<and> set bs \<subseteq> set (book_table st)"
    by (rule where_rows_member[OF all assms(1,2)])
  show ?thesis
  proof (cases category_arg)
    case None
    with plain show ?thesis by (simp add: book_query_def)
  next
    case (Some s)
    show ?thesis
    proof (cases "isdigit s")
      case False
      with Some plain show ?thesis by (simp add: book_query_def)
    next
      case True
      with Some assms(3) have n: "category_param s = Inr (category_id b)" by simp
      let ?cond = "\<lambda>r. case text_match q r of Inl e \<Rightarrow> Inl e
                        | Inr t \<Rightarrow> Inr (t \<and> category_id r = category_id b)"
      have "\<forall>r\<in>set (book_table st). \<exists>t. ?cond r = Inr t"
        using all by (auto split: sum.splits)
      moreover have "?cond b = Inr True" using assms(2) by simp
      ultimately have "\<exists>bs. where_rows ?cond (book_table st) = Inr bs \<and> b \<in> set bs
              \<and> set bs \<subseteq> set (book_table st)"
        using assms(1) by (intro where_rows_member)
      with Some True n show ?thesis by (simp add: book_query_def isdigit_def)
    qed
  qed
qed

text \<open>
  C10. A book that is not available is listed all the same. If it meets the text
  criterion of a search and its category filter, it is among the results; if it belongs
  to a category, it is on one of the pages of the category listing and of the API
  listing, under every sort order. No handler looks at the flag. (The page size and the
  number of rows of the table are within the 64-bit integers of the database.)
\<close>

theorem unavailable_still_listed:
  assumes "b \<in> set (book_table st)" and "available b = Some False"
  shows "(query \<noteq> [] \<and> text_match query b = Inr True \<and> ref_integrity st
          \<and> (case category_arg of None \<Rightarrow> True
              | Some s \<Rightarrow> isdigit s \<longrightarrow> category_param s = Inr (category_id b))
          \<longrightarrow> (\<exists>r d. search st (Some query) category_arg = Inr r
                    \<and> to_dict st b = Inr d \<and> d \<in> set (results r)))
       \<and> (filter_by_name st category_name = Some c \<and> category_id b = cat_id c
          \<and> 1 \<le> per_page \<and> per_page \<le> max_int64
          \<and> int (length (book_table st)) \<le> max_int64
          \<longrightarrow> (\<exists>page r. category st category_name (Some page) (Some per_page) = Inr r
                    \<and> b \<in> set (cp_books r))
            \<and> (\<exists>page a d. api_category_books st category_name (Some page) (Some per_page)
                             sort_by_arg = Inr a
                    \<and> to_dict st b = Inr d \<and> d \<in> set (api_books a)))"
proof (intro conjI impI)
  assume h: "query \<noteq> [] \<and> text_match query b = Inr True \<and> ref_integrity st
          \<and> (case category_arg of None \<Rightarrow> True
              | Some s \<Rightarrow> isdigit s \<longrightarrow> category_param s = Inr (category_id b))"
  from h assms(1) obtain bs where bs: "book_query st query category_arg = Inr bs"
    and m: "b \<in> set bs" and sub: "set bs \<subseteq> set (book_table st)"
    using book_query_member[of b st query category_arg] by blast
  from h sub have "list_all (\<lambda>b. book_category st b \<noteq> None) bs"
    by (auto simp: ref_integrity_def list_all_iff)
  then obtain ds where ds: "to_dicts st bs = Inr ds"
    using to_dicts_total by blast
  from to_dicts_member[OF ds m] obtain d where "to_dict st b = Inr d" "d \<in> set ds" by blast
  with ds bs h show "\<exists>r d. search st (Some query) category_arg = Inr r
                    \<and> to_dict st b = Inr d \<and> d \<in> set (results r)"
    by (simp add: search_def)
next
  assume h: "filter_by_name st category_name = Some c \<and> category_id b = cat_id c
          \<and> 1 \<le> per_page \<and> per_page \<le> max_int64
          \<and> int (length (book_table st)) \<le> max_int64"
  then have c: "filter_by_name st category_name = Some c" and pp: "1 \<le> per_page"
    "per_page \<le> max_int64" by simp_all
  let ?q = "filter_by_category_id st (cat_id c)"
  from h assms(1) have "b \<in> set ?q" by (simp add: filter_by_category_id_def)
  moreover have "int (length ?q) \<le> max_int64"
  proof -
    have "length ?q \<le> length (book_table st)" by (simp add: filter_by_category_id_def)
    with h show ?thesis by linarith
  qed
  ultimately obtain page pg where pg: "paginate ?q page per_page = Inr pg"
    and m: "b \<in> set (pg_items pg)"
    using page_cover[OF _ pp] by blast
  let ?r = "\<lparr>cp_category = c, cp_books = pg_items pg, cp_pagination = pg,
             cp_total_books = length ?q\<rparr>"
  have "category st category_name (Some page) (Some per_page) = Inr ?r"
    using category_found[OF c, of "Some page" "Some per_page" pg] pg by (simp add: args_get_def)
  moreover from m have "b \<in> set (cp_books ?r)" by simp
  ultimately show "\<exists>page r. category st category_name (Some page) (Some per_page) = Inr r
                    \<and> b \<in> set (cp_books r)"
    by blast
next
  assume h: "filter_by_name st category_name = Some c \<and> category_id b = cat_id c
          \<and> 1 \<le> per_page \<and> per_page \<le> max_int64
          \<and> int (length (book_table st)) \<le> max_int64"
  then have c: "filter_by_name st category_name = Some c" and pp: "1 \<le> per_page"
    "per_page \<le> max_int64" by simp_all
  let ?q = "order_by (args_get sort_by_arg ''relevance'') (filter_by_category_id st (cat_id c))"
  from h assms(1) have "b \<in> set ?q"
    by (simp add: filter_by_category_id_def set_order_by)
  moreover have "int (length ?q) \<le> max_int64"
  proof -
    have "length ?q \<le> length (book_table st)"
      by (simp add: filter_by_category_id_def length_order_by)
    with h show ?thesis by linarith
  qed
  ultimately obtain page pg where pg: "paginate ?q page per_page = Inr pg"
    and m: "b \<in> set (pg_items pg)"
    using page_cover[OF _ pp] by blast
  obtain ds where ds: "to_dicts st (pg_items pg) = Inr ds"
    and a: "api_category_books st category_name (Some page) (Some per_page) sort_by_arg =
              Inr \<lparr>api_books = ds, api_total = length (filter_by_category_id st (cat_id c)),
                   api_pages = pg_pages pg, api_current_page = page\<rparr>"
    using api_category_books_found[OF c, of sort_by_arg "Some page" "Some per_page" pg] pg
    by (auto simp: args_get_def)
  from to_dicts_member[OF ds m] obtain d where d: "to_dict st b = Inr d" "d \<in> set ds" by blast
  let ?a = "\<lparr>api_books = ds, api_total = length (filter_by_category_id st (cat_id c)),
                   api_pages = pg_pages pg, api_current_page = page\<rparr>"
  from d have "to_dict st b = Inr d \<and> d \<in> set (api_books ?a)" by simp
  with a show "\<exists>page a d. api_category_books st category_name (Some page) (Some per_page)
                             sort_by_arg = Inr a
                    \<and> to_dict st b = Inr d \<and> d \<in> set (api_books a)"
    by blast
qed

theorem unavailable_still_listed_witness:
  "alpha_book \<in> set (book_table shelf_store) \<and> available alpha_book = Some False
   \<and> text_match ''alp'' alpha_book = Inr True \<and> ref_integrity shelf_store
   \<and> filter_by_name shelf_store ''Fiction'' = Some (mk_category 1 ''Fiction'')
   \<and> int (length (book_table shelf_store)) \<le> max_int64
   \<and> (\<exists>r d. search shelf_store (Some ''alp'') None = Inr r
          \<and> to_dict shelf_store alpha_book = Inr d \<and> d \<in> set (results r))
   \<and> (\<exists>page r. category shelf_store ''Fiction'' (Some page) (Some 10) = Inr r
          \<and> alpha_book \<in> set (cp_books r))
   \<and> (\<exists>page a d. api_category_books shelf_store ''Fiction'' (Some page) (Some 10) (Some ''date'')
                    = Inr a
          \<and> to_dict shelf_store alpha_book = Inr d \<and> d \<in> set (api_books a))"
proof -
  have 1: "alpha_book \<in> set (book_table shelf_store)"
    by (simp add: shelf_store_def alpha_book_def)
  have 2: "available alpha_book = Some False" by (simp add: alpha_book_def)
  have 3: "text_match ''alp'' alpha_book = Inr True" by code_simp
  have 4: "ref_integrity shelf_store" by code_simp
  have 5: "filter_by_name shelf_store ''Fiction'' = Some (mk_category 1 ''Fiction'')" by code_simp
  have 6: "category_id alpha_book = cat_id (mk_category 1 ''Fiction'')"
    by (simp add: alpha_book_def mk_book_def mk_category_def)
  have 7: "int (length (book_table shelf_store)) \<le> max_int64"
    by (simp add: shelf_store_def max_int64_def)
  have 8: "(10::int) \<le> max_int64" by (simp add: max_int64_def)
  from unavailable_still_listed[OF 1 2, of "''alp''" None "''Fiction''" "mk_category 1 ''Fiction''" 10
         "Some ''date''"] 1 2 3 4 5 6 7 8
  show ?thesis by simp
qed

end
